theory Spec2Isabelle
  imports Main "HOL-Library.Sublist" "HOL-Library.AList" "HOL-Library.Char_ord"
begin

section \<open>Strings and the regular expressions of \<^verbatim>\<open>Maildir.py\<close>\<close>

text \<open>
  File names are modelled as \<open>string\<close> (a list of 8-bit characters). The character
  classes of the regular expressions are the ASCII ones: \<^verbatim>\<open>\d\<close> is \<open>0..9\<close> and
  \<^verbatim>\<open>\w\<close> is \<open>[A-Za-z0-9_]\<close>; characters outside ASCII are in neither class.
\<close>

definition is_digit :: "char \<Rightarrow> bool" where
  "is_digit c = (c \<in> set ''0123456789'')"

definition is_word :: "char \<Rightarrow> bool" where
  "is_word c = (c \<in> set ''abcdefghijklmnopqrstuvwxyzABCDEFGHIJKLMNOPQRSTUVWXYZ0123456789_'')"

definition is_hex :: "char \<Rightarrow> bool" where
  "is_hex c = (c \<in> set ''0123456789abcdefABCDEF'')"

text \<open>\<^verbatim>\<open>int(s)\<close> on a non-empty string of decimal digits.\<close>

definition digit_val :: "char \<Rightarrow> int" where
  "digit_val c = int (of_char c) - 48"

definition int_of_digits :: "string \<Rightarrow> int" where
  "int_of_digits ds = foldl (\<lambda>n c. 10 * n + digit_val c) 0 ds"

text \<open>\<^verbatim>\<open>needle in haystack\<close> for strings.\<close>

fun contains_str :: "string \<Rightarrow> string \<Rightarrow> bool" where
  "contains_str needle [] = (needle = [])"
| "contains_str needle (c # cs) = (prefix needle (c # cs) \<or> contains_str needle cs)"

text \<open>
  \<^verbatim>\<open>re_uidmatch = re.compile(',U=(\d+)')\<close>, used with \<^verbatim>\<open>search\<close>: the leftmost
  position where \<^verbatim>\<open>,U=\<close> is followed by at least one digit; the result is group 1,
  the longest run of digits there.
\<close>

fun re_uidmatch_search :: "string \<Rightarrow> string option" where
  "re_uidmatch_search [] = None"
| "re_uidmatch_search (c # cs) =
     (if prefix '',U='' (c # cs) \<and> takeWhile is_digit (drop 3 (c # cs)) \<noteq> []
      then Some (takeWhile is_digit (drop 3 (c # cs)))
      else re_uidmatch_search cs)"

text \<open>
  \<^verbatim>\<open>re_timestampmatch = re.compile('(\d+)')\<close>, used with \<^verbatim>\<open>search\<close>: the leftmost
  longest run of digits anywhere in the string.
\<close>

definition re_timestampmatch_search :: "string \<Rightarrow> string option" where
  "re_timestampmatch_search s =
     (let r = dropWhile (\<lambda>c. \<not> is_digit c) s
      in if r = [] then None else Some (takeWhile is_digit r))"

text \<open>
  \<^verbatim>\<open>self.re_flagmatch = re.compile('%s2,(\w*)' % self.infosep)\<close>, used with
  \<^verbatim>\<open>search\<close>: the leftmost occurrence of the separator followed by \<^verbatim>\<open>2,\<close>; the
  result is group 1, the longest run of word characters after it. The whole match
  \<^verbatim>\<open>group()\<close> is the three marker characters followed by group 1.
\<close>

fun re_flagmatch_search :: "char \<Rightarrow> string \<Rightarrow> string option" where
  "re_flagmatch_search sep [] = None"
| "re_flagmatch_search sep (c # cs) =
     (if prefix (sep # ''2,'') (c # cs)
      then Some (takeWhile is_word (drop 3 (c # cs)))
      else re_flagmatch_search sep cs)"

text \<open>
  \<^verbatim>\<open>self.re_prefixmatch = re.compile('([^' + self.infosep + ',]*)')\<close>, used with
  \<^verbatim>\<open>match\<close>: it always matches at the start, group 1 is everything up to the first
  separator or comma.
\<close>

definition re_prefixmatch_match :: "char \<Rightarrow> string \<Rightarrow> string option" where
  "re_prefixmatch_match sep s = Some (takeWhile (\<lambda>c. c \<noteq> sep \<and> c \<noteq> CHR '','') s)"

text \<open>
  \<^verbatim>\<open>re.search("FMD5=([a-fA-F0-9]+)", filename)\<close> of \<^verbatim>\<open>migratefmd5\<close>: group 1 of the
  leftmost match.
\<close>

fun re_fmd5_search :: "string \<Rightarrow> string option" where
  "re_fmd5_search [] = None"
| "re_fmd5_search (c # cs) =
     (if prefix ''FMD5='' (c # cs) \<and> takeWhile is_hex (drop 5 (c # cs)) \<noteq> []
      then Some (takeWhile is_hex (drop 5 (c # cs)))
      else re_fmd5_search cs)"

section \<open>The folder object\<close>

text \<open>
  The attributes of a \<^verbatim>\<open>MaildirFolder\<close> that never change after \<^verbatim>\<open>__init__\<close>.
  \<open>maxsize\<close> and \<open>filename_use_mail_timestamp\<close> are what \<^verbatim>\<open>BaseFolder\<close> reads from
  the configuration; \<open>foldermd5\<close> is \<^verbatim>\<open>self._foldermd5\<close>, the hex digest of the
  visible name.
\<close>

record folder =
  name :: string
  fullname :: string
  wincompatible :: bool
  foldermd5 :: string
  maxsize :: "int option"
  filename_use_mail_timestamp :: bool
  utime_from_header :: bool

definition infosep :: "folder \<Rightarrow> char" where
  "infosep f = (if wincompatible f then CHR ''!'' else CHR '':'')"

section \<open>\<^verbatim>\<open>_parse_filename\<close>\<close>

text \<open>
  The result is the tuple \<^verbatim>\<open>(prefix, uid, fmd5, flags)\<close>; \<^verbatim>\<open>None\<close> is \<open>None\<close>. The
  third component is never assigned after its initialisation.
\<close>

definition parse_filename ::
  "folder \<Rightarrow> string \<Rightarrow> string option \<times> int option \<times> string option \<times> char set" where
  "parse_filename f filename =
     (let prefixmatch = re_prefixmatch_match (infosep f) filename;
          pfx = (case prefixmatch of None \<Rightarrow> None | Some g \<Rightarrow> Some g);
          folderstr = '',FMD5='' @ foldermd5 f;
          foldermatch = contains_str folderstr filename;
          uid = (if foldermatch
                 then (case re_uidmatch_search filename of
                         None \<Rightarrow> None
                       | Some g \<Rightarrow> Some (int_of_digits g))
                 else None);
          flags = (case re_flagmatch_search (infosep f) filename of
                     None \<Rightarrow> {}
                   | Some g \<Rightarrow> set g)
      in (pfx, uid, None, flags))"

section \<open>Paths and the file system\<close>

text \<open>
  \<^verbatim>\<open>os.path.join(a, b)\<close> and \<^verbatim>\<open>os.path.split(p)\<close> of \<^verbatim>\<open>posixpath\<close>, for two
  components. \<^verbatim>\<open>os.path.sep\<close> is \<open>/\<close>.
\<close>

definition os_path_join :: "string \<Rightarrow> string \<Rightarrow> string" where
  "os_path_join a b =
     (if b \<noteq> [] \<and> hd b = CHR ''/'' then b
      else if a = [] \<or> last a = CHR ''/'' then a @ b
      else a @ ''/'' @ b)"

definition rstrip_slash :: "string \<Rightarrow> string" where
  "rstrip_slash s = rev (dropWhile (\<lambda>c. c = CHR ''/'') (rev s))"

definition os_path_split :: "string \<Rightarrow> string \<times> string" where
  "os_path_split p =
     (let tl_part = rev (takeWhile (\<lambda>c. c \<noteq> CHR ''/'') (rev p));
          hd_part = take (length p - length tl_part) p
      in (if hd_part \<noteq> [] \<and> hd_part \<noteq> replicate (length hd_part) (CHR ''/'')
          then rstrip_slash hd_part else hd_part, tl_part))"

text \<open>
  The file system is an association list from path to file content, keyed by the path
  string the program passes to the operating system. An operation fails only for the
  reason the program itself expects: \<^verbatim>\<open>os.rename\<close> and \<^verbatim>\<open>os.unlink\<close> raise
  \<^verbatim>\<open>OSError\<close> when the source path does not exist, and the exclusive \<^verbatim>\<open>os.open\<close>
  raises it when the path exists. Every operation that changes the file system is
  recorded in \<open>oplog\<close>, latest first.
\<close>

datatype fsop = Rename string string | Unlink string | Create string

record filesys =
  files :: "(string \<times> string) list"
  oplog :: "fsop list"

datatype error =
    OSError
  | OfflineImapError_FOLDER
  | OfflineImapError_MESSAGE
  | AssertionError
  | KeyError
  | TypeError

definition path_exists :: "filesys \<Rightarrow> string \<Rightarrow> bool" where
  "path_exists fs p = (map_of (files fs) p \<noteq> None)"

definition os_rename :: "filesys \<Rightarrow> string \<Rightarrow> string \<Rightarrow> error + filesys" where
  "os_rename fs src dst =
     (case map_of (files fs) src of
        None \<Rightarrow> Inl OSError
      | Some c \<Rightarrow>
          Inr \<lparr>files = (dst, c) # filter (\<lambda>(p, _). p \<noteq> src \<and> p \<noteq> dst) (files fs),
               oplog = Rename src dst # oplog fs\<rparr>)"


definition os_open_excl :: "filesys \<Rightarrow> string \<Rightarrow> string \<Rightarrow> error + filesys" where
  "os_open_excl fs p content =
     (case map_of (files fs) p of
        Some _ \<Rightarrow> Inl OSError
      | None \<Rightarrow> Inr \<lparr>files = (p, content) # files fs, oplog = Create p # oplog fs\<rparr>)"

text \<open>
  \<^verbatim>\<open>os.listdir(d)\<close>: the names of the files directly in directory \<open>d\<close>, in the order
  of the association list. \<^verbatim>\<open>os.path.getsize\<close> is the length of the content.
\<close>

definition dir_prefix_of :: "string \<Rightarrow> string" where
  "dir_prefix_of d = (if d = [] \<or> last d = CHR ''/'' then d else d @ ''/'')"

definition os_listdir :: "filesys \<Rightarrow> string \<Rightarrow> string list" where
  "os_listdir fs d =
     map (\<lambda>p. drop (length (dir_prefix_of d)) p)
       (filter (\<lambda>p. prefix (dir_prefix_of d) p
                  \<and> drop (length (dir_prefix_of d)) p \<noteq> []
                  \<and> CHR ''/'' \<notin> set (drop (length (dir_prefix_of d)) p))
          (remdups (map fst (files fs))))"

definition os_path_getsize :: "filesys \<Rightarrow> string \<Rightarrow> int" where
  "os_path_getsize fs p = (case map_of (files fs) p of None \<Rightarrow> 0 | Some c \<Rightarrow> int (length c))"

section \<open>The message list and the state\<close>

text \<open>
  One value of \<^verbatim>\<open>self.messagelist\<close>: the dictionary
  \<^verbatim>\<open>{'flags': ..., 'filename': ...}\<close>. The message list is an association list
  keyed by UID; assigning to an existing key replaces its value in place, as a
  Python dictionary does.
\<close>

record entry =
  flags :: "char set"
  filename :: string

type_synonym msglist = "(int \<times> entry) list"

definition msglist_item_initializer :: "int \<Rightarrow> entry" where
  "msglist_item_initializer uid = \<lparr>flags = {}, filename = ''/no-dir/no-such-file/''\<rparr>"

text \<open>
  The mutable state: the file system, \<^verbatim>\<open>self.messagelist\<close> and the module-level
  \<^verbatim>\<open>timehash\<close>.
\<close>

record state =
  fs :: filesys
  messagelist :: msglist
  timehash :: "int \<rightharpoonup> int"

section \<open>\<^verbatim>\<open>_gettimeseq\<close>\<close>

text \<open>
  The lock makes each call atomic, so calls are a sequence of state transitions on
  \<^verbatim>\<open>timehash\<close>. \<open>now\<close> is \<^verbatim>\<open>int(time.time())\<close> at the call.
\<close>

definition gettimeseq :: "(int \<rightharpoonup> int) \<Rightarrow> int \<Rightarrow> int option \<Rightarrow> (int \<times> int) \<times> (int \<rightharpoonup> int)" where
  "gettimeseq th now date =
     (let d = (case date of None \<Rightarrow> now | Some x \<Rightarrow> x);
          th' = (case th d of Some n \<Rightarrow> th(d \<mapsto> n + 1) | None \<Rightarrow> th(d \<mapsto> 0))
      in ((d, the (th' d)), th'))"

text \<open>A sequence of calls, each with the clock value and the argument of that call.\<close>

fun gettimeseq_calls :: "(int \<rightharpoonup> int) \<Rightarrow> (int \<times> int option) list \<Rightarrow> (int \<times> int) list" where
  "gettimeseq_calls th [] = []"
| "gettimeseq_calls th ((now, date) # cs) =
     (let (r, th') = gettimeseq th now date in r # gettimeseq_calls th' cs)"

text \<open>The timestamp a call uses: its argument, or the clock.\<close>

definition call_date :: "int \<times> int option \<Rightarrow> int" where
  "call_date c = (case snd c of None \<Rightarrow> fst c | Some x \<Rightarrow> x)"

section \<open>\<^verbatim>\<open>_iswithintime\<close>\<close>

text \<open>
  \<open>date\<close> is \<^verbatim>\<open>time.mktime(date)\<close>, a whole number of seconds.
\<close>

definition iswithintime :: "string \<Rightarrow> int \<Rightarrow> bool" where
  "iswithintime messagename date =
     (case re_timestampmatch_search messagename of
        None \<Rightarrow> True
      | Some timestampstr \<Rightarrow>
          (if int_of_digits timestampstr < date then False else True))"

section \<open>\<^verbatim>\<open>_scanfolder\<close>\<close>

text \<open>
  The three variables the loop over the directory entries updates.
\<close>

record scan_acc =
  retval :: msglist
  date_excludees :: msglist
  nouidcounter :: int

definition scan_files :: "folder \<Rightarrow> filesys \<Rightarrow> (string \<times> string) list" where
  "scan_files f fsys =
     concat (map (\<lambda>dirannex.
                    map (\<lambda>fname. (dirannex, fname))
                      (os_listdir fsys (os_path_join (fullname f) dirannex)))
               [''new'', ''cur''])"

definition exceeds_maxsize :: "folder \<Rightarrow> filesys \<Rightarrow> string \<Rightarrow> bool" where
  "exceeds_maxsize f fsys filepath =
     (case maxsize f of
        None \<Rightarrow> False
      | Some m \<Rightarrow> m \<noteq> 0 \<and> os_path_getsize fsys (os_path_join (fullname f) filepath) > m)"

text \<open>The UID the loop body assigns, with the counter after the assignment.\<close>

definition scan_uid :: "folder \<Rightarrow> string \<Rightarrow> int \<Rightarrow> int \<times> int" where
  "scan_uid f fname ctr =
     (case fst (snd (parse_filename f fname)) of
        None \<Rightarrow> (ctr, ctr - 1)
      | Some _ \<Rightarrow>
          (case re_uidmatch_search fname of
             None \<Rightarrow> (ctr, ctr - 1)
           | Some g \<Rightarrow> (int_of_digits g, ctr)))"

definition scan_step ::
  "folder \<Rightarrow> filesys \<Rightarrow> int option \<Rightarrow> int option \<Rightarrow> scan_acc \<Rightarrow> string \<times> string \<Rightarrow> scan_acc" where
  "scan_step f fsys min_date min_uid acc de =
     (let dirannex = fst de; fname = snd de in
      if fname \<noteq> [] \<and> hd fname = CHR ''.'' then acc
      else
        let filepath = os_path_join dirannex fname in
        if exceeds_maxsize f fsys filepath then acc
        else
          let fl = snd (snd (snd (parse_filename f fname)));
              uid = fst (scan_uid f fname (nouidcounter acc));
              ctr = snd (scan_uid f fname (nouidcounter acc))
          in
            if (case min_uid of None \<Rightarrow> False | Some m \<Rightarrow> uid > 0 \<and> uid < m)
            then acc\<lparr>nouidcounter := ctr\<rparr>
            else if (case min_date of None \<Rightarrow> False | Some d \<Rightarrow> \<not> iswithintime fname d)
            then acc\<lparr>date_excludees :=
                       AList.update uid
                         ((msglist_item_initializer uid)\<lparr>flags := fl, filename := filepath\<rparr>)
                         (date_excludees acc),
                     nouidcounter := ctr\<rparr>
            else acc\<lparr>retval :=
                       AList.update uid
                         ((msglist_item_initializer uid)\<lparr>flags := fl, filename := filepath\<rparr>)
                         (retval acc),
                     nouidcounter := ctr\<rparr>)"

definition scan_loop ::
  "folder \<Rightarrow> filesys \<Rightarrow> int option \<Rightarrow> int option \<Rightarrow> (string \<times> string) list \<Rightarrow> scan_acc" where
  "scan_loop f fsys min_date min_uid fls =
     foldl (scan_step f fsys min_date min_uid)
       \<lparr>retval = [], date_excludees = [], nouidcounter = - 1\<rparr> fls"

text \<open>
  The part after the loop: with \<open>min_date\<close> set, the messages excluded for their date
  whose UID is above the smallest positive UID of \<open>retval\<close> are put back.
\<close>

definition reinclude :: "msglist \<Rightarrow> msglist \<Rightarrow> msglist" where
  "reinclude rv excl =
     (let positive_uids = filter (\<lambda>uid. uid > 0) (map fst rv) in
      if positive_uids \<noteq> [] then
        let min_uid = min_list positive_uids in
        foldl (\<lambda>r uid. if uid > min_uid
                        then (case map_of excl uid of None \<Rightarrow> r | Some e \<Rightarrow> AList.update uid e r)
                        else r)
          rv (map fst excl)
      else rv)"

definition scanfolder :: "folder \<Rightarrow> filesys \<Rightarrow> int option \<Rightarrow> int option \<Rightarrow> msglist" where
  "scanfolder f fsys min_date min_uid =
     (let acc = scan_loop f fsys min_date min_uid (scan_files f fsys) in
      if min_date \<noteq> None then reinclude (retval acc) (date_excludees acc) else retval acc)"

section \<open>\<^verbatim>\<open>new_message_filename\<close>\<close>

text \<open>\<^verbatim>\<open>'%d' % n\<close>.\<close>

function str_of_nat :: "nat \<Rightarrow> string" where
  "str_of_nat n =
     (if n < 10 then [char_of (48 + n)]
      else str_of_nat (n div 10) @ [char_of (48 + n mod 10)])"
  by pat_completeness auto
termination
  by (relation "measure (\<lambda>n. n)") auto

declare str_of_nat.simps [simp del]

definition str_of_int :: "int \<Rightarrow> string" where
  "str_of_int i = (if i < 0 then CHR ''-'' # str_of_nat (nat (- i)) else str_of_nat (nat i))"

text \<open>What \<^verbatim>\<open>os.getpid()\<close> and \<^verbatim>\<open>socket.gethostname()\<close> return.\<close>

record env =
  pid :: int
  hostname :: string

definition os_path_sep :: char where
  "os_path_sep = CHR ''/''"

definition sep_subst :: char where
  "sep_subst = (if os_path_sep = CHR ''-'' then CHR ''_'' else CHR ''-'')"

definition new_message_filename ::
  "folder \<Rightarrow> env \<Rightarrow> (int \<rightharpoonup> int) \<Rightarrow> int \<Rightarrow> int \<Rightarrow> char set \<Rightarrow> int option
     \<Rightarrow> string \<times> (int \<rightharpoonup> int)" where
  "new_message_filename f e th now uid fl date =
     (let ts = gettimeseq th now date;
          timeval = fst (fst ts); timeseq = snd (fst ts);
          uniq_name = str_of_int timeval @ ''_'' @ str_of_int timeseq @ ''.''
                      @ str_of_int (pid e) @ ''.'' @ hostname e
                      @ '',U='' @ str_of_int uid
                      @ '',FMD5='' @ foldermd5 f
                      @ [infosep f] @ ''2,'' @ sorted_list_of_set fl
      in (map (\<lambda>c. if c = os_path_sep then sep_subst else c) uniq_name, snd ts))"

section \<open>\<^verbatim>\<open>savemessageflags\<close>\<close>

definition savemessageflags :: "folder \<Rightarrow> state \<Rightarrow> int \<Rightarrow> char set \<Rightarrow> error + state" where
  "savemessageflags f st uid fl =
     (case map_of (messagelist st) uid of
        None \<Rightarrow> Inl AssertionError
      | Some e \<Rightarrow>
          let oldfilename = filename e;
              fname = snd (os_path_split oldfilename);
              dir_prefix = (if CHR ''S'' \<in> fl then ''cur'' else ''new'');
              fname' =
                (if fl \<noteq> flags e then
                   (case re_flagmatch_search (infosep f) fname of
                      None \<Rightarrow> fname
                    | Some g \<Rightarrow> take (length fname - (3 + length g)) fname)
                   @ ([infosep f] @ ''2,'' @ sorted_list_of_set fl)
                 else fname);
              newfilename = os_path_join dir_prefix fname'
          in
            if newfilename \<noteq> oldfilename then
              (case os_rename (fs st) (os_path_join (fullname f) oldfilename)
                      (os_path_join (fullname f) newfilename) of
                 Inl _ \<Rightarrow> Inl OfflineImapError_FOLDER
               | Inr fs' \<Rightarrow>
                   Inr (st\<lparr>fs := fs',
                           messagelist :=
                             AList.update uid (e\<lparr>flags := fl, filename := newfilename\<rparr>)
                               (messagelist st)\<rparr>))
            else Inr st)"

section \<open>\<^verbatim>\<open>save_to_tmp_file\<close> and \<^verbatim>\<open>savemessage\<close>\<close>

text \<open>
  A message: \<open>msg_bytes\<close> is \<^verbatim>\<open>msg.as_bytes(policy)\<close>, \<open>msg_date\<close> and
  \<open>msg_delivery_date\<close> are what \<^verbatim>\<open>BaseFolder.get_message_date\<close> returns for the
  \<^verbatim>\<open>Date\<close> and \<^verbatim>\<open>Delivery-date\<close> headers.
\<close>

record message =
  msg_bytes :: string
  msg_date :: "int option"
  msg_delivery_date :: "int option"

text \<open>
  The exception handler of the retry loop starts with
  \<^verbatim>\<open>if not hasattr(e, 'EEXIST'): raise\<close>. An \<^verbatim>\<open>OSError\<close> object has no attribute
  of that name, so the first failure of the exclusive \<^verbatim>\<open>os.open\<close> leaves the
  function with that \<^verbatim>\<open>OSError\<close>.
\<close>

definition save_to_tmp_file ::
  "folder \<Rightarrow> filesys \<Rightarrow> string \<Rightarrow> message \<Rightarrow> error + (filesys \<times> string)" where
  "save_to_tmp_file f fsys fname msg =
     (let tmpname = os_path_join ''tmp'' fname in
      case os_open_excl fsys (os_path_join (fullname f) tmpname) (msg_bytes msg) of
        Inl e \<Rightarrow> Inl e
      | Inr fs' \<Rightarrow> Inr (fs', tmpname))"

text \<open>
  \<open>now\<close> is the clock at the call. \<^verbatim>\<open>os.utime\<close> changes a modification time only,
  which the file system above does not record.
\<close>

definition savemessage ::
  "folder \<Rightarrow> env \<Rightarrow> int \<Rightarrow> state \<Rightarrow> int \<Rightarrow> message \<Rightarrow> char set \<Rightarrow> int
     \<Rightarrow> error + (int \<times> state)" where
  "savemessage f e now st uid msg fl rtime =
     (if uid < 0 then Inr (uid, st)
      else if map_of (messagelist st) uid \<noteq> None then
        (case savemessageflags f st uid fl of
           Inl err \<Rightarrow> Inl err
         | Inr st' \<Rightarrow> Inr (uid, st'))
      else
        let message_timestamp =
              (if filename_use_mail_timestamp f
               then (case msg_date msg of
                       None \<Rightarrow> msg_delivery_date msg
                     | Some d \<Rightarrow> Some d)
               else None);
            nm = new_message_filename f e (timehash st) now uid fl message_timestamp
        in
          (case save_to_tmp_file f (fs st) (fst nm) msg of
             Inl err \<Rightarrow> Inl err
           | Inr r \<Rightarrow>
               let st1 = st\<lparr>fs := fst r, timehash := snd nm,
                            messagelist :=
                              AList.update uid
                                ((msglist_item_initializer uid)\<lparr>flags := fl, filename := snd r\<rparr>)
                                (messagelist st)\<rparr>
               in (case savemessageflags f st1 uid fl of
                     Inl err \<Rightarrow> Inl err
                   | Inr st2 \<Rightarrow> Inr (uid, st2))))"

section \<open>\<^verbatim>\<open>deletemessage\<close>\<close>


section \<open>\<^verbatim>\<open>migratefmd5\<close>\<close>

text \<open>
  \<^verbatim>\<open>hashlib.md5(x).hexdigest()\<close>. The digest function itself is the parameter
  \<open>md5hex\<close>. \<^verbatim>\<open>hashlib.md5\<close> accepts bytes only: given a \<^verbatim>\<open>str\<close> it raises
  \<^verbatim>\<open>TypeError\<close>. \<^verbatim>\<open>__init__\<close> hashes \<^verbatim>\<open>self.getvisiblename().encode('utf-8')\<close>,
  \<^verbatim>\<open>migratefmd5\<close> hashes \<^verbatim>\<open>self.name\<close>, which is a \<^verbatim>\<open>str\<close>.
\<close>

datatype pyobj = PyStr string | PyBytes string

definition str_encode :: "string \<Rightarrow> pyobj" where
  "str_encode s = PyBytes s"

definition hashlib_md5_hexdigest :: "(string \<Rightarrow> string) \<Rightarrow> pyobj \<Rightarrow> error + string" where
  "hashlib_md5_hexdigest md5hex x =
     (case x of PyStr _ \<Rightarrow> Inl TypeError | PyBytes b \<Rightarrow> Inr (md5hex b))"

definition init_foldermd5 :: "(string \<Rightarrow> string) \<Rightarrow> string \<Rightarrow> error + string" where
  "init_foldermd5 md5hex visiblename = hashlib_md5_hexdigest md5hex (str_encode visiblename)"

text \<open>\<^verbatim>\<open>s.replace(old, new)\<close> for a non-empty \<open>old\<close>.\<close>

function str_replace :: "string \<Rightarrow> string \<Rightarrow> string \<Rightarrow> string" where
  "str_replace old new [] = []"
| "str_replace old new (c # cs) =
     (if old \<noteq> [] \<and> prefix old (c # cs)
      then new @ str_replace old new (drop (length old - 1) cs)
      else c # str_replace old new cs)"
  by pat_completeness auto
termination
  by (relation "measure (\<lambda>(old, new, s). length s)") auto

text \<open>What \<^verbatim>\<open>migratefmd5\<close> reports through \<^verbatim>\<open>self.ui\<close>.\<close>

datatype report =
    Debug_no_fmd5 string
  | Info_migrating string string
  | Warn_inconsistent string string string

fun migrate_loop ::
  "folder \<Rightarrow> string \<Rightarrow> bool \<Rightarrow> (int \<times> entry) list \<Rightarrow> filesys \<Rightarrow> report list
     \<Rightarrow> error + (filesys \<times> report list)" where
  "migrate_loop f oldfmd5 dryrun [] fsys rs = Inr (fsys, rs)"
| "migrate_loop f oldfmd5 dryrun ((mkey, mvalue) # rest) fsys rs =
     (let fname = os_path_join (fullname f) (filename mvalue) in
      case re_fmd5_search fname of
        None \<Rightarrow> migrate_loop f oldfmd5 dryrun rest fsys (rs @ [Debug_no_fmd5 fname])
      | Some g \<Rightarrow>
          if g = oldfmd5 then
            (if \<not> dryrun then
               (case os_rename fsys fname
                       (str_replace (''FMD5='' @ g) (''FMD5='' @ foldermd5 f) fname) of
                  Inl _ \<Rightarrow> Inl OfflineImapError_FOLDER
                | Inr fs' \<Rightarrow>
                    migrate_loop f oldfmd5 dryrun rest fs'
                      (rs @ [Info_migrating fname (foldermd5 f)]))
             else migrate_loop f oldfmd5 dryrun rest fsys
                    (rs @ [Info_migrating fname (foldermd5 f)]))
          else if g \<noteq> foldermd5 f then
            migrate_loop f oldfmd5 dryrun rest fsys
              (rs @ [Warn_inconsistent fname oldfmd5 (foldermd5 f)])
          else migrate_loop f oldfmd5 dryrun rest fsys rs)"

definition migratefmd5 ::
  "(string \<Rightarrow> string) \<Rightarrow> folder \<Rightarrow> state \<Rightarrow> bool \<Rightarrow> error + (state \<times> report list)" where
  "migratefmd5 md5hex f st dryrun =
     (case hashlib_md5_hexdigest md5hex (PyStr (name f)) of
        Inl err \<Rightarrow> Inl err
      | Inr oldfmd5 \<Rightarrow>
          (case migrate_loop f oldfmd5 dryrun (scanfolder f (fs st) None None) (fs st) [] of
             Inl err \<Rightarrow> Inl err
           | Inr r \<Rightarrow> Inr (st\<lparr>fs := fst r\<rparr>, snd r)))"

section \<open>Auxiliary definitions for the statements\<close>

text \<open>
  The sequence number the next call for timestamp \<open>d\<close> returns, given the table.
\<close>

definition seq_base :: "(int \<rightharpoonup> int) \<Rightarrow> int \<Rightarrow> int" where
  "seq_base th d = (case th d of None \<Rightarrow> 0 | Some n \<Rightarrow> n + 1)"

text \<open>A folder, an environment, a message and states for the concrete evaluations.\<close>

definition inbox :: folder where
  "inbox = \<lparr>name = ''INBOX'', fullname = ''/m/INBOX'', wincompatible = False,
            foldermd5 = ''7e33429f656f1e6e9d79b29c3f82c57e'', maxsize = None,
            filename_use_mail_timestamp = False, utime_from_header = False\<rparr>"

definition host_env :: env where
  "host_env = \<lparr>pid = 42, hostname = ''host''\<rparr>"

definition hello_msg :: message where
  "hello_msg = \<lparr>msg_bytes = ''hello'', msg_date = None, msg_delivery_date = None\<rparr>"

definition empty_state :: state where
  "empty_state = \<lparr>fs = \<lparr>files = [], oplog = []\<rparr>, messagelist = [], timehash = Map.empty\<rparr>"

text \<open>
  The flag letters of \<^verbatim>\<open>_scanfolder\<close>'s documentation: \<^verbatim>\<open>D F R S T\<close> and the
  lower-case letters.
\<close>

definition flag_alphabet :: "char set" where
  "flag_alphabet = set ''DFRST'' \<union> set ''abcdefghijklmnopqrstuvwxyz''"

text \<open>An environment whose host name contains the separator.\<close>

definition odd_env :: env where
  "odd_env = \<lparr>pid = 42, hostname = ''h:2''\<rparr>"

text \<open>
  The subdirectory \<^verbatim>\<open>savemessageflags\<close> selects, and the base name it builds for a
  message-list entry.
\<close>

definition target_dir :: "char set \<Rightarrow> string" where
  "target_dir fl = (if CHR ''S'' \<in> fl then ''cur'' else ''new'')"

definition renamed_basename :: "folder \<Rightarrow> entry \<Rightarrow> char set \<Rightarrow> string" where
  "renamed_basename f e fl =
     (if fl \<noteq> flags e then
        (case re_flagmatch_search (infosep f) (snd (os_path_split (filename e))) of
           None \<Rightarrow> snd (os_path_split (filename e))
         | Some g \<Rightarrow> take (length (snd (os_path_split (filename e))) - (3 + length g))
                      (snd (os_path_split (filename e))))
        @ ([infosep f] @ ''2,'' @ sorted_list_of_set fl)
      else snd (os_path_split (filename e)))"

text \<open>
  The state \<^verbatim>\<open>savemessage\<close> reaches before it calls \<^verbatim>\<open>savemessageflags\<close>: the
  message is staged in \<^verbatim>\<open>tmp\<close> and entered in the message list with its flags.
\<close>

definition staged_state :: state where
  "staged_state =
     \<lparr>fs = \<lparr>files = [(''/m/INBOX/tmp/1000_0.42.host,U=1,FMD5=7e33429f656f1e6e9d79b29c3f82c57e:2,'', ''hello'')],
            oplog = []\<rparr>,
      messagelist = [(1, \<lparr>flags = {}, filename = ''tmp/1000_0.42.host,U=1,FMD5=7e33429f656f1e6e9d79b29c3f82c57e:2,''\<rparr>)],
      timehash = [1000 \<mapsto> 0]\<rparr>"

text \<open>The staged message after it has been delivered to \<^verbatim>\<open>new\<close> with no flags.\<close>

definition delivered_state :: state where
  "delivered_state =
     \<lparr>fs = \<lparr>files = [(''/m/INBOX/new/1000_0.42.host,U=1,FMD5=7e33429f656f1e6e9d79b29c3f82c57e:2,'', ''hello'')],
            oplog = [Rename ''/m/INBOX/tmp/1000_0.42.host,U=1,FMD5=7e33429f656f1e6e9d79b29c3f82c57e:2,''
                            ''/m/INBOX/new/1000_0.42.host,U=1,FMD5=7e33429f656f1e6e9d79b29c3f82c57e:2,'']\<rparr>,
      messagelist = [(1, \<lparr>flags = {}, filename = ''new/1000_0.42.host,U=1,FMD5=7e33429f656f1e6e9d79b29c3f82c57e:2,''\<rparr>)],
      timehash = [1000 \<mapsto> 0]\<rparr>"

text \<open>
  The parts of one iteration of the scanning loop: whether the directory entry is
  skipped before it is decoded, the message-list entry recorded for it, and the two
  filters.
\<close>

definition skipped :: "folder \<Rightarrow> filesys \<Rightarrow> string \<times> string \<Rightarrow> bool" where
  "skipped f fsys de =
     ((snd de \<noteq> [] \<and> hd (snd de) = CHR ''.'')
      \<or> exceeds_maxsize f fsys (os_path_join (fst de) (snd de)))"

definition scan_entry :: "folder \<Rightarrow> string \<times> string \<Rightarrow> entry" where
  "scan_entry f de =
     \<lparr>flags = snd (snd (snd (parse_filename f (snd de)))),
      filename = os_path_join (fst de) (snd de)\<rparr>"

definition below_floor :: "int option \<Rightarrow> int \<Rightarrow> bool" where
  "below_floor min_uid uid = (case min_uid of None \<Rightarrow> False | Some m \<Rightarrow> uid > 0 \<and> uid < m)"

definition too_old :: "int option \<Rightarrow> string \<Rightarrow> bool" where
  "too_old min_date fname = (case min_date of None \<Rightarrow> False | Some d \<Rightarrow> \<not> iswithintime fname d)"

text \<open>
  What holds of the loop variables after the directory entries \<open>ps\<close> have been
  processed.
\<close>

definition scan_inv ::
  "folder \<Rightarrow> filesys \<Rightarrow> int option \<Rightarrow> int option \<Rightarrow> (string \<times> string) list \<Rightarrow> scan_acc \<Rightarrow> bool" where
  "scan_inv f fsys min_date min_uid ps acc =
     (nouidcounter acc < 0 \<and>
      (\<forall>uid e. map_of (retval acc) uid = Some e \<longrightarrow>
         nouidcounter acc < uid \<and> \<not> below_floor min_uid uid \<and>
         (\<exists>de \<in> set ps. e = scan_entry f de \<and> \<not> skipped f fsys de
                          \<and> \<not> too_old min_date (snd de))) \<and>
      (\<forall>uid e. map_of (date_excludees acc) uid = Some e \<longrightarrow>
         nouidcounter acc < uid \<and> \<not> below_floor min_uid uid \<and>
         (\<exists>de \<in> set ps. e = scan_entry f de \<and> \<not> skipped f fsys de
                          \<and> too_old min_date (snd de))) \<and>
      (\<forall>de \<in> set ps. \<not> skipped f fsys de \<and> re_uidmatch_search (snd de) = None
                        \<and> \<not> too_old min_date (snd de) \<longrightarrow>
         (\<exists>uid. uid < 0 \<and> map_of (retval acc) uid = Some (scan_entry f de))))"



text \<open>A mailbox with one file whose name has no digit.\<close>

definition plain_fs :: filesys where
  "plain_fs = \<lparr>files = [(''/m/INBOX/new/hello'', ''x'')], oplog = []\<rparr>"


section \<open>The unique token generator\<close>

lemma gettimeseq_fst:
  "fst (gettimeseq th now date) = (call_date (now, date), seq_base th (call_date (now, date)))"
  by (simp add: gettimeseq_def call_date_def seq_base_def Let_def split: option.splits)

lemma gettimeseq_snd_base:
  "seq_base (snd (gettimeseq th now date)) d =
     (if d = call_date (now, date) then seq_base th d + 1 else seq_base th d)"
  by (simp add: gettimeseq_def call_date_def seq_base_def Let_def split: option.splits)

lemma length_gettimeseq_calls: "length (gettimeseq_calls th cs) = length cs"
  by (induction cs arbitrary: th) (auto simp: Let_def split: prod.splits)

lemma gettimeseq_calls_nth:
  "i < length cs \<Longrightarrow>
   gettimeseq_calls th cs ! i =
     (call_date (cs ! i),
      seq_base th (call_date (cs ! i))
        + int (length (filter (\<lambda>c. call_date c = call_date (cs ! i)) (take i cs))))"
proof (induction cs arbitrary: th i)
  case Nil
  then show ?case by simp
next
  case (Cons c cs)
  obtain now date where c: "c = (now, date)" by (cases c)
  obtain r th' where g: "gettimeseq th now date = (r, th')" by (cases "gettimeseq th now date")
  have r: "r = (call_date c, seq_base th (call_date c))"
    using gettimeseq_fst [of th now date] g c by simp
  have b: "\<And>d. seq_base th' d = (if d = call_date c then seq_base th d + 1 else seq_base th d)"
    using gettimeseq_snd_base [of th now date] g c by simp
  show ?case
  proof (cases i)
    case 0
    then show ?thesis using c g r by simp
  next
    case (Suc j)
    then have j: "j < length cs" using Cons.prems by simp
    show ?thesis
      using Cons.IH [OF j, of th'] Suc c g b by simp
  qed
qed

lemma take_split_at:
  assumes "i < j" "j \<le> length xs"
  shows "take j xs = take i xs @ xs ! i # take (j - Suc i) (drop (Suc i) xs)"
proof -
  have "take j xs = take (Suc i + (j - Suc i)) xs" using assms by simp
  also have "\<dots> = take (Suc i) xs @ take (j - Suc i) (drop (Suc i) xs)"
    by (rule take_add)
  also have "take (Suc i) xs = take i xs @ [xs ! i]"
    using assms by (simp add: take_Suc_conv_app_nth)
  finally show ?thesis by simp
qed

lemma gettimeseq_calls_distinct: "distinct (gettimeseq_calls th cs)"
proof -
  let ?rs = "gettimeseq_calls th cs"
  have neq: "\<And>i j. i < j \<Longrightarrow> j < length cs \<Longrightarrow> ?rs ! i \<noteq> ?rs ! j"
  proof
    fix i j assume ij: "i < j" and j: "j < length cs" and eq: "?rs ! i = ?rs ! j"
    have i: "i < length cs" using ij j by simp
    let ?d = "call_date (cs ! j)"
    let ?P = "\<lambda>c. call_date c = ?d"
    from eq gettimeseq_calls_nth [OF i, of th] gettimeseq_calls_nth [OF j, of th]
    have d: "call_date (cs ! i) = ?d"
      and n: "length (filter ?P (take i cs)) = length (filter ?P (take j cs))"
      by auto
    have "take j cs = take i cs @ cs ! i # take (j - Suc i) (drop (Suc i) cs)"
      using ij j by (intro take_split_at) simp_all
    then have "length (filter ?P (take j cs)) > length (filter ?P (take i cs))"
      using d by simp
    with n show False by simp
  qed
  show ?thesis
    unfolding distinct_conv_nth length_gettimeseq_calls
  proof (intro allI impI)
    fix i j assume "i < length cs" "j < length cs" "i \<noteq> j"
    then show "?rs ! i \<noteq> ?rs ! j"
      using neq [of i j] neq [of j i] by (cases "i < j") (auto simp: not_less le_less)
  qed
qed

text \<open>
  Claim C9. Starting from the empty table of a fresh process, in every sequence of
  calls of \<^verbatim>\<open>_gettimeseq\<close> no two calls return the same pair, and the call number
  \<open>i\<close> returns its timestamp together with the number of earlier calls for that same
  timestamp: the first call for a timestamp returns sequence 0 and every later call
  for it returns one more than the call before.
\<close>

theorem gettimeseq_unique_contiguous:
  "distinct (gettimeseq_calls Map.empty cs) \<and>
   (\<forall>i < length cs.
      gettimeseq_calls Map.empty cs ! i =
        (call_date (cs ! i),
         int (length (filter (\<lambda>c. call_date c = call_date (cs ! i)) (take i cs)))))"
proof (intro conjI allI impI)
  show "distinct (gettimeseq_calls Map.empty cs)" by (rule gettimeseq_calls_distinct)
next
  fix i assume "i < length cs"
  then show "gettimeseq_calls Map.empty cs ! i =
        (call_date (cs ! i),
         int (length (filter (\<lambda>c. call_date c = call_date (cs ! i)) (take i cs))))"
    using gettimeseq_calls_nth [of i cs Map.empty] by (simp add: seq_base_def)
qed

theorem gettimeseq_unique_contiguous_witness:
  "(3::nat) < length [(5, None), (5, Some 5), (6, Some 7), (9::int, Some (5::int))] \<and>
   gettimeseq_calls Map.empty [(5, None), (5, Some 5), (6, Some 7), (9, Some 5)] ! 3 = (5, 2) \<and>
   distinct (gettimeseq_calls Map.empty [(5, None), (5, Some 5), (6, Some 7), (9, Some 5)])"
proof -
  let ?cs = "[(5, None), (5, Some 5), (6, Some 7), (9::int, Some (5::int))]"
  have h: "(3::nat) < length ?cs" by simp
  from gettimeseq_unique_contiguous [of ?cs]
  have d: "distinct (gettimeseq_calls Map.empty ?cs)"
    and a: "\<forall>i < length ?cs.
      gettimeseq_calls Map.empty ?cs ! i =
        (call_date (?cs ! i),
         int (length (filter (\<lambda>c. call_date c = call_date (?cs ! i)) (take i ?cs))))"
    by blast+
  from a h have "gettimeseq_calls Map.empty ?cs ! 3 =
        (call_date (?cs ! 3),
         int (length (filter (\<lambda>c. call_date c = call_date (?cs ! 3)) (take 3 ?cs))))"
    by blast
  then have "gettimeseq_calls Map.empty ?cs ! 3 = (5, 2)"
    by (simp add: call_date_def eval_nat_numeral)
  with h d show ?thesis by blast
qed

section \<open>The fingerprint migration\<close>

text \<open>
  Claim C8. \<^verbatim>\<open>migratefmd5\<close> hashes \<^verbatim>\<open>self.name\<close> without encoding it, so the call
  ends with \<^verbatim>\<open>TypeError\<close> before the mailbox is scanned: for every folder, state
  and value of \<open>dryrun\<close> nothing is detected, reported or renamed.
\<close>

theorem migratefmd5_raises_TypeError:
  "migratefmd5 md5hex f st dryrun = Inl TypeError"
  by (simp add: migratefmd5_def hashlib_md5_hexdigest_def)

section \<open>Decoding a file name\<close>

lemma contains_str_iff: "contains_str n h \<longleftrightarrow> (\<exists>pre post. h = pre @ n @ post)"
proof (induction h)
  case Nil
  then show ?case by auto
next
  case (Cons c cs)
  show ?case
  proof
    assume "contains_str n (c # cs)"
    then consider "prefix n (c # cs)" | "contains_str n cs" by auto
    then show "\<exists>pre post. c # cs = pre @ n @ post"
    proof cases
      case 1
      then obtain post where "c # cs = n @ post" by (auto simp: prefix_def)
      then have "c # cs = [] @ n @ post" by simp
      then show ?thesis by blast
    next
      case 2
      then obtain pre post where "cs = pre @ n @ post" using Cons.IH by blast
      then have "c # cs = (c # pre) @ n @ post" by simp
      then show ?thesis by blast
    qed
  next
    assume "\<exists>pre post. c # cs = pre @ n @ post"
    then obtain pre post where e: "c # cs = pre @ n @ post" by blast
    show "contains_str n (c # cs)"
    proof (cases pre)
      case Nil
      then have "prefix n (c # cs)" using e by (simp add: prefix_def)
      then show ?thesis by simp
    next
      case (Cons p pre')
      then have "cs = pre' @ n @ post" using e by simp
      then have "contains_str n cs" using Cons.IH by blast
      then show ?thesis by simp
    qed
  qed
qed

lemma re_uidmatch_search_Some:
  "re_uidmatch_search s = Some g \<Longrightarrow>
   \<exists>a b. s = a @ '',U='' @ g @ b \<and> g \<noteq> [] \<and> (\<forall>c \<in> set g. is_digit c)"
proof (induction s)
  case Nil
  then show ?case by simp
next
  case (Cons c cs)
  show ?case
  proof (cases "prefix '',U='' (c # cs) \<and> takeWhile is_digit (drop 3 (c # cs)) \<noteq> []")
    case True
    then have g: "g = takeWhile is_digit (drop 3 (c # cs))" using Cons.prems by simp
    from True obtain r where r: "c # cs = '',U='' @ r" by (auto simp: prefix_def)
    then have "drop 3 (c # cs) = r" by (metis append_eq_conv_conj length_Cons list.size(3) numeral_3_eq_3)
    then have "r = g @ dropWhile is_digit r" using g by simp
    then have "c # cs = [] @ '',U='' @ g @ dropWhile is_digit r" using r by simp
    moreover have "g \<noteq> []" using True g by simp
    moreover have "\<forall>c \<in> set g. is_digit c" using g by (auto dest: set_takeWhileD)
    ultimately show ?thesis by blast
  next
    case False
    then have "re_uidmatch_search cs = Some g" using Cons.prems by (simp split: if_splits)
    then obtain a b where "cs = a @ '',U='' @ g @ b" "g \<noteq> []" "\<forall>c \<in> set g. is_digit c"
      using Cons.IH by blast
    then have "c # cs = (c # a) @ '',U='' @ g @ b" by simp
    then show ?thesis using \<open>g \<noteq> []\<close> \<open>\<forall>c \<in> set g. is_digit c\<close> by blast
  qed
qed

text \<open>
  What the fingerprint test of the code computes: it is the substring test
  \<^verbatim>\<open>folderstr in filename\<close>. No UID is returned when the name does not contain
  \<^verbatim>\<open>,FMD5=\<close> followed by the fingerprint of the folder; a UID that is returned is
  the number of a \<^verbatim>\<open>,U=<digits>\<close> marker of a name that contains this text.
\<close>

lemma parse_filename_uid_substring:
  "(\<not> (\<exists>pre post. fname = pre @ '',FMD5='' @ foldermd5 f @ post)
      \<longrightarrow> fst (snd (parse_filename f fname)) = None) \<and>
   (\<forall>n. fst (snd (parse_filename f fname)) = Some n \<longrightarrow>
      (\<exists>pre post. fname = pre @ '',FMD5='' @ foldermd5 f @ post) \<and>
      (\<exists>a g b. fname = a @ '',U='' @ g @ b \<and> g \<noteq> [] \<and> (\<forall>c \<in> set g. is_digit c)
                 \<and> n = int_of_digits g))"
proof (intro conjI impI allI)
  assume "\<not> (\<exists>pre post. fname = pre @ '',FMD5='' @ foldermd5 f @ post)"
  then have "\<not> contains_str ('',FMD5='' @ foldermd5 f) fname"
    using contains_str_iff [of "'',FMD5='' @ foldermd5 f" fname] by simp
  then show "fst (snd (parse_filename f fname)) = None"
    by (simp add: parse_filename_def Let_def)
next
  fix n assume n: "fst (snd (parse_filename f fname)) = Some n"
  then have c: "contains_str ('',FMD5='' @ foldermd5 f) fname"
    by (simp add: parse_filename_def Let_def split: if_splits)
  then show "\<exists>pre post. fname = pre @ '',FMD5='' @ foldermd5 f @ post"
    using contains_str_iff [of "'',FMD5='' @ foldermd5 f" fname] by simp
  from n c obtain g where g: "re_uidmatch_search fname = Some g" "n = int_of_digits g"
    by (auto simp: parse_filename_def Let_def split: option.splits)
  from re_uidmatch_search_Some [OF g(1)] g(2)
  show "\<exists>a g b. fname = a @ '',U='' @ g @ b \<and> g \<noteq> [] \<and> (\<forall>c \<in> set g. is_digit c)
                 \<and> n = int_of_digits g"
    by blast
qed

text \<open>
  Claim C1. The documentation of \<^verbatim>\<open>_parse_filename\<close> promises no UID whenever the
  \<^verbatim>\<open>FMD5\<close> marker of the name does not correspond with the fingerprint of the
  folder. The substring test falls short of that: in the name below the value of the
  \<^verbatim>\<open>FMD5\<close> marker, read as \<^verbatim>\<open>migratefmd5\<close> reads it, is one digit longer than
  the fingerprint of the folder, so it differs from it, and the UID 5 of the name is
  returned all the same.
\<close>

theorem parse_filename_foreign_fingerprint_uid:
  "re_fmd5_search ''1000_0.123.host,U=5,FMD5=7e33429f656f1e6e9d79b29c3f82c57e0:2,S''
     = Some ''7e33429f656f1e6e9d79b29c3f82c57e0'' \<and>
   ''7e33429f656f1e6e9d79b29c3f82c57e0'' \<noteq> foldermd5 inbox \<and>
   fst (snd (parse_filename inbox
     ''1000_0.123.host,U=5,FMD5=7e33429f656f1e6e9d79b29c3f82c57e0:2,S'')) = Some 5"
  by (simp add: parse_filename_def inbox_def infosep_def is_digit_def is_hex_def
        int_of_digits_def digit_val_def)

section \<open>Saving a message\<close>

lemma str_of_int_1000: "str_of_int 1000 = ''1000''"
  by code_simp

lemma str_of_int_0: "str_of_int 0 = ''0''"
  by code_simp

lemma str_of_int_42: "str_of_int 42 = ''42''"
  by code_simp

text \<open>
  Claim C5, as amended. For every negative UID \<^verbatim>\<open>savemessage\<close> returns the UID it was
  given and leaves the whole state as it was: no file is created or renamed, the
  message list and the table of sequence numbers are unchanged.
\<close>

theorem savemessage_negative_uid:
  "uid < 0 \<Longrightarrow> savemessage f e now st uid msg fl rtime = Inr (uid, st)"
  by (simp add: savemessage_def)

theorem savemessage_negative_uid_witness:
  "(- 1::int) < 0 \<and>
   savemessage inbox host_env 1000 empty_state (- 1) hello_msg {} 0 = Inr (- 1, empty_state)"
  using savemessage_negative_uid [of "- 1" inbox host_env 1000 empty_state hello_msg "{}" 0]
  by simp

text \<open>
  The claim as stated fails at the non-positive UID 0: the guard of the source is
  \<^verbatim>\<open>uid < 0\<close>, so the message is written to \<^verbatim>\<open>tmp\<close>, moved to \<^verbatim>\<open>new\<close> and
  entered in the message list.
\<close>

theorem savemessage_uid_zero_counterexample:
  "(0::int) \<le> 0 \<and>
   savemessage inbox host_env 1000 empty_state 0 hello_msg {} 0 =
     Inr (0, \<lparr>fs = \<lparr>files = [(''/m/INBOX/new/1000_0.42.host,U=0,FMD5=7e33429f656f1e6e9d79b29c3f82c57e:2,'', ''hello'')],
                     oplog = [Rename ''/m/INBOX/tmp/1000_0.42.host,U=0,FMD5=7e33429f656f1e6e9d79b29c3f82c57e:2,''
                                     ''/m/INBOX/new/1000_0.42.host,U=0,FMD5=7e33429f656f1e6e9d79b29c3f82c57e:2,'',
                              Create ''/m/INBOX/tmp/1000_0.42.host,U=0,FMD5=7e33429f656f1e6e9d79b29c3f82c57e:2,'']\<rparr>,
              messagelist = [(0, \<lparr>flags = {}, filename = ''new/1000_0.42.host,U=0,FMD5=7e33429f656f1e6e9d79b29c3f82c57e:2,''\<rparr>)],
              timehash = [1000 \<mapsto> 0]\<rparr>)"
  by (simp add: savemessage_def inbox_def host_env_def empty_state_def hello_msg_def
        new_message_filename_def gettimeseq_def Let_def str_of_int_1000 str_of_int_0 str_of_int_42
        infosep_def os_path_sep_def sep_subst_def save_to_tmp_file_def os_open_excl_def
        os_path_join_def msglist_item_initializer_def savemessageflags_def os_path_split_def
        rstrip_slash_def os_rename_def is_word_def)

section \<open>Encoding and decoding the flags\<close>

lemma char_of_digit: "(n::nat) < 10 \<Longrightarrow> is_digit (char_of (48 + n))"
proof -
  assume "n < 10"
  then have "n \<in> set [0, 1, 2, 3, 4, 5, 6, 7, 8, 9]" by (simp; presburger)
  moreover have "\<forall>k \<in> set [0::nat, 1, 2, 3, 4, 5, 6, 7, 8, 9]. is_digit (char_of (48 + k))"
    by code_simp
  ultimately show ?thesis by blast
qed

lemma str_of_nat_digits: "c \<in> set (str_of_nat n) \<Longrightarrow> is_digit c"
proof (induction n rule: str_of_nat.induct)
  case (1 n)
  show ?case
  proof (cases "n < 10")
    case True
    then have "str_of_nat n = [char_of (48 + n)]" by (subst str_of_nat.simps) simp
    then show ?thesis using "1.prems" char_of_digit [OF True] by simp
  next
    case False
    have m: "n mod 10 < 10" by simp
    from False have "str_of_nat n = str_of_nat (n div 10) @ [char_of (48 + n mod 10)]"
      by (subst str_of_nat.simps) simp
    then have "c \<in> set (str_of_nat (n div 10)) \<or> c = char_of (48 + n mod 10)"
      using "1.prems" by auto
    then show ?thesis using "1.IH" False char_of_digit [OF m] by auto
  qed
qed

lemma str_of_int_chars: "c \<in> set (str_of_int i) \<Longrightarrow> is_digit c \<or> c = CHR ''-''"
  by (auto simp: str_of_int_def dest: str_of_nat_digits split: if_splits)

lemma infosep_cases: "infosep f = CHR '':'' \<or> infosep f = CHR ''!''"
  by (simp add: infosep_def)

lemma infosep_not_in_str_of_int: "infosep f \<notin> set (str_of_int i)"
  using str_of_int_chars [of "infosep f" i] infosep_cases [of f]
  by (auto simp: is_digit_def)

lemma re_flagmatch_search_skip:
  "sep \<notin> set p \<Longrightarrow>
   re_flagmatch_search sep (p @ sep # ''2,'' @ w) = Some (takeWhile is_word w)"
  by (induction p) (auto simp: prefix_def)


lemma sanitize_set:
  "c \<in> set (map (\<lambda>c. if c = os_path_sep then sep_subst else c) p) \<Longrightarrow> c \<in> set p \<or> c = CHR ''-''"
  by (auto simp: sep_subst_def os_path_sep_def split: if_splits)

lemma sanitize_id:
  "CHR ''/'' \<notin> set w \<Longrightarrow> map (\<lambda>c. if c = os_path_sep then sep_subst else c) w = w"
  by (induction w) (auto simp: os_path_sep_def)

lemma flag_alphabet_word: "c \<in> flag_alphabet \<Longrightarrow> is_word c"
  by (auto simp: flag_alphabet_def is_word_def)

lemma flag_alphabet_no_slash: "CHR ''/'' \<notin> flag_alphabet"
  by (simp add: flag_alphabet_def)

lemma takeWhile_all: "\<forall>c \<in> set w. P c \<Longrightarrow> takeWhile P w = w"
  by (induction w) auto

text \<open>
  Claim C6, as amended. When the host name and the fingerprint do not contain the
  separator character, then for every UID, every date and every flag set drawn from
  the flag alphabet, \<^verbatim>\<open>_parse_filename\<close> returns exactly that flag set on the name
  \<^verbatim>\<open>new_message_filename\<close> builds.
\<close>

theorem flags_roundtrip:
  assumes al: "fl \<subseteq> flag_alphabet"
    and hn: "infosep f \<notin> set (hostname e)"
    and md: "infosep f \<notin> set (foldermd5 f)"
  shows "snd (snd (snd (parse_filename f (fst (new_message_filename f e th now uid fl date))))) = fl"
proof -
  let ?sep = "infosep f"
  let ?g = "\<lambda>c. if c = os_path_sep then sep_subst else c"
  let ?w = "sorted_list_of_set fl"
  obtain tv ts th' where ts: "gettimeseq th now date = ((tv, ts), th')"
    by (metis prod.exhaust)
  let ?p = "str_of_int tv @ ''_'' @ str_of_int ts @ ''.''
                      @ str_of_int (pid e) @ ''.'' @ hostname e
                      @ '',U='' @ str_of_int uid
                      @ '',FMD5='' @ foldermd5 f"
  have sepc: "?sep = CHR '':'' \<or> ?sep = CHR ''!''" by (rule infosep_cases)
  have fin: "finite fl" by simp
  have setw: "set ?w = fl" using fin by simp
  have w_word: "\<forall>c \<in> set ?w. is_word c" using setw al flag_alphabet_word by blast
  have w_slash: "CHR ''/'' \<notin> set ?w" using setw al flag_alphabet_no_slash by blast
  have name: "fst (new_message_filename f e th now uid fl date)
                = map ?g ?p @ ?sep # ''2,'' @ ?w"
  proof -
    have "fst (new_message_filename f e th now uid fl date) = map ?g (?p @ ?sep # ''2,'' @ ?w)"
      by (simp add: new_message_filename_def ts Let_def)
    also have "\<dots> = map ?g ?p @ ?g ?sep # map ?g ''2,'' @ map ?g ?w" by simp
    also have "?g ?sep = ?sep" using sepc by (auto simp: os_path_sep_def)
    also have "map ?g ''2,'' = ''2,''" by (simp add: os_path_sep_def)
    also have "map ?g ?w = ?w" using w_slash by (rule sanitize_id)
    finally show ?thesis .
  qed
  have "?sep \<notin> set ?p"
    using hn md infosep_not_in_str_of_int [of f] sepc by auto
  then have "?sep \<notin> set (map ?g ?p)"
    using sanitize_set [of ?sep ?p] sepc by auto
  then have "re_flagmatch_search ?sep (map ?g ?p @ ?sep # ''2,'' @ ?w) = Some (takeWhile is_word ?w)"
    by (rule re_flagmatch_search_skip)
  also have "takeWhile is_word ?w = ?w" using w_word by (rule takeWhile_all)
  finally have "re_flagmatch_search ?sep (fst (new_message_filename f e th now uid fl date)) = Some ?w"
    using name by simp
  then show ?thesis
    using setw by (simp add: parse_filename_def Let_def)
qed

lemma sorted_S: "sorted_list_of_set {CHR ''S''} = ''S''"
  by simp

lemma str_of_int_5: "str_of_int 5 = ''5''"
  by code_simp

theorem flags_roundtrip_witness:
  "{CHR ''S''} \<subseteq> flag_alphabet \<and> infosep inbox \<notin> set (hostname host_env) \<and>
   infosep inbox \<notin> set (foldermd5 inbox) \<and>
   snd (snd (snd (parse_filename inbox
     (fst (new_message_filename inbox host_env Map.empty 1000 5 {CHR ''S''} None))))) = {CHR ''S''}"
proof -
  have h1: "{CHR ''S''} \<subseteq> flag_alphabet" by (simp add: flag_alphabet_def)
  have h2: "infosep inbox \<notin> set (hostname host_env)"
    by (simp add: infosep_def inbox_def host_env_def)
  have h3: "infosep inbox \<notin> set (foldermd5 inbox)"
    by (simp add: infosep_def inbox_def)
  from flags_roundtrip [OF h1 h2 h3, of Map.empty 1000 5 None] h1 h2 h3
  show ?thesis by blast
qed

text \<open>
  The claim as stated fails on a host whose name contains the separator: with the
  host name \<^verbatim>\<open>h:2\<close> the first flags marker of the generated name is \<^verbatim>\<open>:2,U\<close>,
  inside the prefix, and the flag set \<open>{S}\<close> is read back as \<open>{U}\<close>.
\<close>

theorem flags_roundtrip_counterexample:
  "{CHR ''S''} \<subseteq> flag_alphabet \<and>
   snd (snd (snd (parse_filename inbox
     (fst (new_message_filename inbox odd_env Map.empty 1000 5 {CHR ''S''} None))))) = {CHR ''U''} \<and>
   {CHR ''U''} \<noteq> {CHR ''S''}"
  by (simp add: flag_alphabet_def parse_filename_def new_message_filename_def gettimeseq_def
        Let_def inbox_def odd_env_def infosep_def os_path_sep_def sep_subst_def
        str_of_int_1000 str_of_int_0 str_of_int_42 str_of_int_5 is_word_def)

section \<open>Changing the flags of a message\<close>

lemma savemessageflags_unfold:
  "savemessageflags f st uid fl =
     (case map_of (messagelist st) uid of
        None \<Rightarrow> Inl AssertionError
      | Some e \<Rightarrow>
          if os_path_join (target_dir fl) (renamed_basename f e fl) \<noteq> filename e then
            (case os_rename (fs st) (os_path_join (fullname f) (filename e))
                    (os_path_join (fullname f)
                       (os_path_join (target_dir fl) (renamed_basename f e fl))) of
               Inl _ \<Rightarrow> Inl OfflineImapError_FOLDER
             | Inr fs' \<Rightarrow>
                 Inr (st\<lparr>fs := fs',
                         messagelist :=
                           AList.update uid
                             (e\<lparr>flags := fl,
                                filename := os_path_join (target_dir fl) (renamed_basename f e fl)\<rparr>)
                             (messagelist st)\<rparr>))
          else Inr st)"
  unfolding savemessageflags_def target_dir_def renamed_basename_def Let_def
  by (rule refl)

lemma split_tail_no_slash: "CHR ''/'' \<notin> set (snd (os_path_split p))"
  by (auto simp: os_path_split_def Let_def dest: set_takeWhileD)

lemma split_tail_of_join:
  "CHR ''/'' \<notin> set nm \<Longrightarrow> snd (os_path_split (d @ CHR ''/'' # nm)) = nm"
proof -
  assume a: "CHR ''/'' \<notin> set nm"
  have "takeWhile (\<lambda>c. c \<noteq> CHR ''/'') (rev nm @ CHR ''/'' # rev d) = rev nm"
    using a by (intro takeWhile_tail [THEN trans]) auto
  hence "takeWhile (\<lambda>c. c \<noteq> CHR ''/'') (rev nm @ CHR ''/'' # rev d) = rev nm" .
  then show ?thesis by (simp add: os_path_split_def Let_def)
qed

lemma renamed_basename_no_leading_slash:
  "renamed_basename f e fl = [] \<or> hd (renamed_basename f e fl) \<noteq> CHR ''/''"
proof -
  let ?t = "snd (os_path_split (filename e))"
  have t: "CHR ''/'' \<notin> set ?t" by (rule split_tail_no_slash)
  have sep: "infosep f \<noteq> CHR ''/''" by (simp add: infosep_def)
  have tk: "\<And>n. take n ?t = [] \<or> hd (take n ?t) \<noteq> CHR ''/''"
    using t by (metis hd_in_set in_set_takeD)
  show ?thesis
  proof (cases "fl \<noteq> flags e")
    case False
    then show ?thesis using t by (auto simp: renamed_basename_def dest: hd_in_set)
  next
    case True
    show ?thesis
    proof (cases "re_flagmatch_search (infosep f) ?t")
      case None
      then show ?thesis using True t sep
        by (cases ?t) (auto simp: renamed_basename_def)
    next
      case (Some g)
      then show ?thesis using True sep tk [of "length ?t - (3 + length g)"]
        by (cases "take (length ?t - (3 + length g)) ?t") (auto simp: renamed_basename_def)
    qed
  qed
qed

lemma renamed_basename_no_slash:
  "CHR ''/'' \<notin> fl \<Longrightarrow> CHR ''/'' \<notin> set (renamed_basename f e fl)"
proof -
  assume a: "CHR ''/'' \<notin> fl"
  let ?t = "snd (os_path_split (filename e))"
  have t: "CHR ''/'' \<notin> set ?t" by (rule split_tail_no_slash)
  have sep: "infosep f \<noteq> CHR ''/''" by (simp add: infosep_def)
  have tk: "\<And>n. CHR ''/'' \<notin> set (take n ?t)" using t by (meson in_set_takeD)
  have w: "set (sorted_list_of_set fl) = fl" by simp
  show ?thesis
    using a t sep tk w
    by (auto simp: renamed_basename_def split: option.splits)
qed

lemma target_dir_join:
  "x = [] \<or> hd x \<noteq> CHR ''/'' \<Longrightarrow> os_path_join (target_dir fl) x = target_dir fl @ ''/'' @ x"
  by (auto simp: os_path_join_def target_dir_def)

lemma os_rename_moves:
  "os_rename fsys a b = Inr fs' \<Longrightarrow> map_of (files fsys) a = Some c \<Longrightarrow>
   map_of (files fs') b = Some c"
  by (auto simp: os_rename_def split: option.splits)


lemma new_path_shape:
  "os_path_join (target_dir fl) (renamed_basename f e fl)
     = target_dir fl @ ''/'' @ renamed_basename f e fl"
  using renamed_basename_no_leading_slash [of f e fl] by (rule target_dir_join)

text \<open>
  Claim C2. When the message list agrees with the disk before the call (the file of
  \<open>uid\<close> is at the path the list records), then after every call of
  \<^verbatim>\<open>savemessageflags\<close> that returns, the path the list records for \<open>uid\<close> is
  \<^verbatim>\<open>cur/<name>\<close> if \<open>S\<close> is among the flags and \<^verbatim>\<open>new/<name>\<close> otherwise, the
  name has no further directory part (for flags without a slash), and that same file
  is at this path on disk.
\<close>

theorem savemessageflags_location:
  assumes ent: "map_of (messagelist st) uid = Some e"
    and disk: "map_of (files (fs st)) (os_path_join (fullname f) (filename e)) = Some c"
    and ok: "savemessageflags f st uid fl = Inr st'"
  shows "\<exists>e' nm. map_of (messagelist st') uid = Some e' \<and>
           filename e' = (if CHR ''S'' \<in> fl then ''cur'' else ''new'') @ ''/'' @ nm \<and>
           (CHR ''/'' \<notin> fl \<longrightarrow> CHR ''/'' \<notin> set nm) \<and>
           map_of (files (fs st')) (os_path_join (fullname f) (filename e')) = Some c"
proof -
  let ?nm = "renamed_basename f e fl"
  let ?new = "os_path_join (target_dir fl) ?nm"
  have shape: "?new = (if CHR ''S'' \<in> fl then ''cur'' else ''new'') @ ''/'' @ ?nm"
    using new_path_shape [of fl f e] by (simp add: target_dir_def)
  have noslash: "CHR ''/'' \<notin> fl \<longrightarrow> CHR ''/'' \<notin> set ?nm"
    using renamed_basename_no_slash [of fl f e] by blast
  show ?thesis
  proof (cases "?new \<noteq> filename e")
    case True
    with ok ent obtain fs' where
      rn: "os_rename (fs st) (os_path_join (fullname f) (filename e))
             (os_path_join (fullname f) ?new) = Inr fs'"
      and st': "st' = st\<lparr>fs := fs',
                         messagelist :=
                           AList.update uid (e\<lparr>flags := fl, filename := ?new\<rparr>) (messagelist st)\<rparr>"
      by (auto simp: savemessageflags_unfold split: sum.splits)
    let ?e' = "e\<lparr>flags := fl, filename := ?new\<rparr>"
    have 1: "map_of (messagelist st') uid = Some ?e'"
      using st' by (simp add: update_conv')
    have 2: "map_of (files (fs st')) (os_path_join (fullname f) (filename ?e')) = Some c"
      using os_rename_moves [OF rn disk] st' by simp
    have 3: "filename ?e' = (if CHR ''S'' \<in> fl then ''cur'' else ''new'') @ ''/'' @ ?nm"
      using shape by simp
    from 1 2 3 noslash show ?thesis by blast
  next
    case False
    then have same: "st' = st" using ok ent by (simp add: savemessageflags_unfold)
    have 3: "filename e = (if CHR ''S'' \<in> fl then ''cur'' else ''new'') @ ''/'' @ ?nm"
      using False shape by simp
    from same ent disk 3 noslash show ?thesis by blast
  qed
qed

text \<open>
  Claim C4, as amended. A call of \<^verbatim>\<open>savemessageflags\<close> with the flags the message
  list already records leaves the whole state, the log of renames included, as it
  was, provided the recorded path is already in the subdirectory the flags select.
  After any call that returned, a second call with the same UID and flags changes
  nothing either, so it performs no rename.
\<close>

theorem savemessageflags_same_flags:
  "(map_of (messagelist st) uid = Some e \<and> flags e = fl \<and>
    filename e = (if CHR ''S'' \<in> fl then ''cur'' else ''new'') @ ''/'' @ nm \<and>
    CHR ''/'' \<notin> set nm
      \<longrightarrow> savemessageflags f st uid fl = Inr st) \<and>
   (savemessageflags f st uid fl = Inr st' \<and> CHR ''/'' \<notin> fl
      \<longrightarrow> savemessageflags f st' uid fl = Inr st')"
proof -
  have part1: "savemessageflags g s uid fl = Inr s"
    if ent: "map_of (messagelist s) uid = Some x" and fx: "flags x = fl"
      and nx: "filename x = target_dir fl @ ''/'' @ m" and m: "CHR ''/'' \<notin> set m"
    for g s x m
  proof -
    have "renamed_basename g x fl = m"
      using fx nx m by (simp add: renamed_basename_def split_tail_of_join)
    then have "os_path_join (target_dir fl) (renamed_basename g x fl) = filename x"
      using new_path_shape [of fl g x] nx by simp
    then show ?thesis using ent by (simp add: savemessageflags_unfold)
  qed
  have part2: "savemessageflags f st' uid fl = Inr st'"
    if ok: "savemessageflags f st uid fl = Inr st'" and sl: "CHR ''/'' \<notin> fl"
  proof -
    from ok obtain x where ent: "map_of (messagelist st) uid = Some x"
      by (auto simp: savemessageflags_unfold split: option.splits)
    let ?nm = "renamed_basename f x fl"
    let ?new = "os_path_join (target_dir fl) ?nm"
    show ?thesis
    proof (cases "?new \<noteq> filename x")
      case True
      with ok ent obtain fs' where
        st': "st' = st\<lparr>fs := fs',
                         messagelist :=
                           AList.update uid (x\<lparr>flags := fl, filename := ?new\<rparr>) (messagelist st)\<rparr>"
        by (auto simp: savemessageflags_unfold split: sum.splits)
      let ?x' = "x\<lparr>flags := fl, filename := ?new\<rparr>"
      have 1: "map_of (messagelist st') uid = Some ?x'"
        using st' by (simp add: update_conv')
      have 2: "flags ?x' = fl" by simp
      have 3: "filename ?x' = target_dir fl @ ''/'' @ ?nm"
        using new_path_shape [of fl f x] by simp
      have 4: "CHR ''/'' \<notin> set ?nm" using sl by (rule renamed_basename_no_slash)
      from part1 [OF 1 2 3 4] show ?thesis .
    next
      case False
      then have "st' = st" using ok ent by (simp add: savemessageflags_unfold)
      then show ?thesis using ok by simp
    qed
  qed
  show ?thesis
  proof (intro conjI impI)
    assume a: "map_of (messagelist st) uid = Some e \<and> flags e = fl \<and>
      filename e = (if CHR ''S'' \<in> fl then ''cur'' else ''new'') @ ''/'' @ nm \<and>
      CHR ''/'' \<notin> set nm"
    then have "filename e = target_dir fl @ ''/'' @ nm" by (simp add: target_dir_def)
    with a show "savemessageflags f st uid fl = Inr st" by (intro part1) blast+
  next
    assume "savemessageflags f st uid fl = Inr st' \<and> CHR ''/'' \<notin> fl"
    then show "savemessageflags f st' uid fl = Inr st'" by (intro part2) blast+
  qed
qed


lemmas savemessageflags_eval =
  savemessageflags_def inbox_def infosep_def os_path_join_def os_path_split_def
  rstrip_slash_def os_rename_def Let_def is_word_def

text \<open>
  The claim as stated fails for a message whose recorded path is not in the
  subdirectory its flags select: for the message \<^verbatim>\<open>savemessage\<close> has staged in
  \<^verbatim>\<open>tmp\<close>, the call with the recorded (empty) flag set renames the file into
  \<^verbatim>\<open>new\<close>.
\<close>

theorem savemessageflags_same_flags_counterexample:
  "map_of (messagelist staged_state) 1 =
     Some \<lparr>flags = {}, filename = ''tmp/1000_0.42.host,U=1,FMD5=7e33429f656f1e6e9d79b29c3f82c57e:2,''\<rparr> \<and>
   savemessageflags inbox staged_state 1 {} = Inr delivered_state \<and>
   oplog (fs delivered_state) \<noteq> oplog (fs staged_state)"
  by (simp add: staged_state_def delivered_state_def savemessageflags_eval)

theorem savemessageflags_same_flags_witness:
  "map_of (messagelist delivered_state) 1 =
     Some \<lparr>flags = {}, filename = ''new/1000_0.42.host,U=1,FMD5=7e33429f656f1e6e9d79b29c3f82c57e:2,''\<rparr> \<and>
   CHR ''/'' \<notin> set ''1000_0.42.host,U=1,FMD5=7e33429f656f1e6e9d79b29c3f82c57e:2,'' \<and>
   savemessageflags inbox staged_state 1 {} = Inr delivered_state \<and>
   CHR ''/'' \<notin> ({} :: char set) \<and>
   savemessageflags inbox delivered_state 1 {} = Inr delivered_state"
proof -
  let ?e = "\<lparr>flags = {}, filename = ''new/1000_0.42.host,U=1,FMD5=7e33429f656f1e6e9d79b29c3f82c57e:2,''\<rparr>"
  let ?nm = "''1000_0.42.host,U=1,FMD5=7e33429f656f1e6e9d79b29c3f82c57e:2,''"
  have h1: "map_of (messagelist delivered_state) 1 = Some ?e"
    by (simp add: delivered_state_def)
  have h2: "flags ?e = {}" by simp
  have h3: "filename ?e = (if CHR ''S'' \<in> ({} :: char set) then ''cur'' else ''new'') @ ''/'' @ ?nm"
    by simp
  have h4: "CHR ''/'' \<notin> set ?nm" by simp
  have h5: "savemessageflags inbox staged_state 1 {} = Inr delivered_state"
    by (simp add: staged_state_def delivered_state_def savemessageflags_eval)
  have h6: "CHR ''/'' \<notin> ({} :: char set)" by simp
  from savemessageflags_same_flags [where st = delivered_state and uid = 1 and e = ?e and fl = "{}" and nm = ?nm and f = inbox]
    h1 h2 h3 h4
  have c1: "savemessageflags inbox delivered_state 1 {} = Inr delivered_state" by blast
  from savemessageflags_same_flags [where st = staged_state and uid = 1 and fl = "{}" and f = inbox and st' = delivered_state]
    h5 h6
  have c2: "savemessageflags inbox delivered_state 1 {} = Inr delivered_state" by blast
  from h1 h4 h5 h6 c1 c2 show ?thesis by blast
qed

theorem savemessageflags_location_witness:
  "map_of (messagelist staged_state) 1 =
     Some \<lparr>flags = {}, filename = ''tmp/1000_0.42.host,U=1,FMD5=7e33429f656f1e6e9d79b29c3f82c57e:2,''\<rparr> \<and>
   map_of (files (fs staged_state))
     (os_path_join (fullname inbox) ''tmp/1000_0.42.host,U=1,FMD5=7e33429f656f1e6e9d79b29c3f82c57e:2,'')
     = Some ''hello'' \<and>
   savemessageflags inbox staged_state 1 {CHR ''S''} =
     Inr \<lparr>fs = \<lparr>files = [(''/m/INBOX/cur/1000_0.42.host,U=1,FMD5=7e33429f656f1e6e9d79b29c3f82c57e:2,S'', ''hello'')],
            oplog = [Rename ''/m/INBOX/tmp/1000_0.42.host,U=1,FMD5=7e33429f656f1e6e9d79b29c3f82c57e:2,''
                            ''/m/INBOX/cur/1000_0.42.host,U=1,FMD5=7e33429f656f1e6e9d79b29c3f82c57e:2,S'']\<rparr>,
      messagelist = [(1, \<lparr>flags = {CHR ''S''}, filename = ''cur/1000_0.42.host,U=1,FMD5=7e33429f656f1e6e9d79b29c3f82c57e:2,S''\<rparr>)],
      timehash = [1000 \<mapsto> 0]\<rparr> \<and>
   (\<exists>e' nm. map_of [(1::int, \<lparr>flags = {CHR ''S''}, filename = ''cur/1000_0.42.host,U=1,FMD5=7e33429f656f1e6e9d79b29c3f82c57e:2,S''\<rparr>)] 1 = Some e' \<and>
           filename e' = ''cur'' @ ''/'' @ nm \<and> CHR ''/'' \<notin> set nm \<and>
           map_of [(''/m/INBOX/cur/1000_0.42.host,U=1,FMD5=7e33429f656f1e6e9d79b29c3f82c57e:2,S'', ''hello'')]
             (os_path_join (fullname inbox) (filename e')) = Some ''hello'')"
proof -
  let ?e = "\<lparr>flags = {}, filename = ''tmp/1000_0.42.host,U=1,FMD5=7e33429f656f1e6e9d79b29c3f82c57e:2,''\<rparr>"
  let ?st' = "\<lparr>fs = \<lparr>files = [(''/m/INBOX/cur/1000_0.42.host,U=1,FMD5=7e33429f656f1e6e9d79b29c3f82c57e:2,S'', ''hello'')],
            oplog = [Rename ''/m/INBOX/tmp/1000_0.42.host,U=1,FMD5=7e33429f656f1e6e9d79b29c3f82c57e:2,''
                            ''/m/INBOX/cur/1000_0.42.host,U=1,FMD5=7e33429f656f1e6e9d79b29c3f82c57e:2,S'']\<rparr>,
      messagelist = [(1, \<lparr>flags = {CHR ''S''}, filename = ''cur/1000_0.42.host,U=1,FMD5=7e33429f656f1e6e9d79b29c3f82c57e:2,S''\<rparr>)],
      timehash = [1000 \<mapsto> 0]\<rparr>"
  have h1: "map_of (messagelist staged_state) 1 = Some ?e"
    by (simp add: staged_state_def)
  have h2: "map_of (files (fs staged_state)) (os_path_join (fullname inbox) (filename ?e)) = Some ''hello''"
    by (simp add: staged_state_def inbox_def os_path_join_def)
  have h3: "savemessageflags inbox staged_state 1 {CHR ''S''} = Inr ?st'"
    by (simp add: staged_state_def savemessageflags_eval)
  from savemessageflags_location [OF h1 h2 h3]
  have "\<exists>e' nm. map_of (messagelist ?st') 1 = Some e' \<and>
           filename e' = (if CHR ''S'' \<in> {CHR ''S''} then ''cur'' else ''new'') @ ''/'' @ nm \<and>
           (CHR ''/'' \<notin> {CHR ''S''} \<longrightarrow> CHR ''/'' \<notin> set nm) \<and>
           map_of (files (fs ?st')) (os_path_join (fullname inbox) (filename e')) = Some ''hello''" .
  then have c: "\<exists>e' nm. map_of [(1::int, \<lparr>flags = {CHR ''S''}, filename = ''cur/1000_0.42.host,U=1,FMD5=7e33429f656f1e6e9d79b29c3f82c57e:2,S''\<rparr>)] 1 = Some e' \<and>
           filename e' = ''cur'' @ ''/'' @ nm \<and> CHR ''/'' \<notin> set nm \<and>
           map_of [(''/m/INBOX/cur/1000_0.42.host,U=1,FMD5=7e33429f656f1e6e9d79b29c3f82c57e:2,S'', ''hello'')]
             (os_path_join (fullname inbox) (filename e')) = Some ''hello''"
    by simp
  from h1 h2 h3 c show ?thesis by simp
qed

section \<open>The folder scanner\<close>

lemma scan_step_unfold:
  "scan_step f fsys min_date min_uid acc de =
     (if skipped f fsys de then acc
      else if below_floor min_uid (fst (scan_uid f (snd de) (nouidcounter acc)))
      then acc\<lparr>nouidcounter := snd (scan_uid f (snd de) (nouidcounter acc))\<rparr>
      else if too_old min_date (snd de)
      then acc\<lparr>date_excludees :=
                 AList.update (fst (scan_uid f (snd de) (nouidcounter acc))) (scan_entry f de)
                   (date_excludees acc),
               nouidcounter := snd (scan_uid f (snd de) (nouidcounter acc))\<rparr>
      else acc\<lparr>retval :=
                 AList.update (fst (scan_uid f (snd de) (nouidcounter acc))) (scan_entry f de)
                   (retval acc),
               nouidcounter := snd (scan_uid f (snd de) (nouidcounter acc))\<rparr>)"
  by (simp add: scan_step_def skipped_def below_floor_def too_old_def scan_entry_def
        msglist_item_initializer_def Let_def)

lemma digit_val_nonneg: "is_digit c \<Longrightarrow> 0 \<le> digit_val c"
  by (auto simp: is_digit_def digit_val_def)

lemma foldl_digits_nonneg:
  "\<forall>c \<in> set ds. is_digit c \<Longrightarrow> 0 \<le> n \<Longrightarrow> 0 \<le> foldl (\<lambda>n c. 10 * n + digit_val c) n ds"
proof (induction ds arbitrary: n)
  case Nil
  then show ?case by simp
next
  case (Cons c ds)
  have "0 \<le> 10 * n + digit_val c" using Cons.prems digit_val_nonneg [of c] by simp
  then show ?case using Cons by simp
qed

lemma int_of_digits_nonneg: "\<forall>c \<in> set ds. is_digit c \<Longrightarrow> 0 \<le> int_of_digits ds"
  by (simp add: int_of_digits_def foldl_digits_nonneg)

lemma re_uidmatch_search_digits:
  "re_uidmatch_search s = Some g \<Longrightarrow> \<forall>c \<in> set g. is_digit c"
  by (induction s) (auto split: if_splits dest: set_takeWhileD)

lemma scan_uid_cases:
  "(fst (scan_uid f fname ctr) = ctr \<and> snd (scan_uid f fname ctr) = ctr - 1) \<or>
   (0 \<le> fst (scan_uid f fname ctr) \<and> snd (scan_uid f fname ctr) = ctr)"
  by (auto simp: scan_uid_def split: option.splits
        dest!: re_uidmatch_search_digits int_of_digits_nonneg)

lemma scan_uid_no_marker:
  "re_uidmatch_search fname = None \<Longrightarrow>
   fst (scan_uid f fname ctr) = ctr \<and> snd (scan_uid f fname ctr) = ctr - 1"
  by (simp add: scan_uid_def split: option.splits)


lemma scan_inv_init: "scan_inv f fsys md mu [] \<lparr>retval = [], date_excludees = [], nouidcounter = - 1\<rparr>"
  by (simp add: scan_inv_def)

lemma scan_inv_step:
  assumes inv: "scan_inv f fsys md mu ps acc"
  shows "scan_inv f fsys md mu (ps @ [de]) (scan_step f fsys md mu acc de)"
proof -
  let ?ctr = "nouidcounter acc"
  let ?u = "fst (scan_uid f (snd de) ?ctr)"
  let ?c = "snd (scan_uid f (snd de) ?ctr)"
  let ?e = "scan_entry f de"
  from inv have ctr: "?ctr < 0"
    and rv: "\<And>uid e. map_of (retval acc) uid = Some e \<Longrightarrow>
         ?ctr < uid \<and> \<not> below_floor mu uid \<and>
         (\<exists>d \<in> set ps. e = scan_entry f d \<and> \<not> skipped f fsys d \<and> \<not> too_old md (snd d))"
    and ex: "\<And>uid e. map_of (date_excludees acc) uid = Some e \<Longrightarrow>
         ?ctr < uid \<and> \<not> below_floor mu uid \<and>
         (\<exists>d \<in> set ps. e = scan_entry f d \<and> \<not> skipped f fsys d \<and> too_old md (snd d))"
    and neg: "\<And>d. d \<in> set ps \<Longrightarrow> \<not> skipped f fsys d \<Longrightarrow> re_uidmatch_search (snd d) = None
                \<Longrightarrow> \<not> too_old md (snd d) \<Longrightarrow>
         (\<exists>uid. uid < 0 \<and> map_of (retval acc) uid = Some (scan_entry f d))"
    unfolding scan_inv_def by blast+
  have uc: "(?u = ?ctr \<and> ?c = ?ctr - 1) \<or> (0 \<le> ?u \<and> ?c = ?ctr)"
    by (rule scan_uid_cases)
  have c_neg: "?c < 0" and c_le: "?c \<le> ?ctr" and u_gt: "?c < ?u"
    using uc ctr by auto
  have u_fresh: "\<And>uid. uid < 0 \<Longrightarrow> ?ctr < uid \<Longrightarrow> uid \<noteq> ?u"
    using uc by auto
  show ?thesis
  proof (cases "skipped f fsys de")
    case True
    then have st: "scan_step f fsys md mu acc de = acc" by (simp add: scan_step_unfold)
    show ?thesis
      unfolding st scan_inv_def
    proof (intro conjI allI impI ballI)
      show "?ctr < 0" by (rule ctr)
    next
      fix uid e assume a: "map_of (retval acc) uid = Some e"
      from rv [OF a] show "?ctr < uid" "\<not> below_floor mu uid" by blast+
      from rv [OF a] show "\<exists>d \<in> set (ps @ [de]). e = scan_entry f d \<and> \<not> skipped f fsys d
                             \<and> \<not> too_old md (snd d)" by auto
    next
      fix uid e assume a: "map_of (date_excludees acc) uid = Some e"
      from ex [OF a] show "?ctr < uid" "\<not> below_floor mu uid" by blast+
      from ex [OF a] show "\<exists>d \<in> set (ps @ [de]). e = scan_entry f d \<and> \<not> skipped f fsys d
                             \<and> too_old md (snd d)" by auto
    next
      fix d assume d: "d \<in> set (ps @ [de])"
        and h: "\<not> skipped f fsys d \<and> re_uidmatch_search (snd d) = None \<and> \<not> too_old md (snd d)"
      from d h True have "d \<in> set ps" by auto
      with h neg show "\<exists>uid. uid < 0 \<and> map_of (retval acc) uid = Some (scan_entry f d)" by blast
    qed
  next
    case nsk: False
    show ?thesis
    proof (cases "below_floor mu ?u")
      case True
      then have st: "scan_step f fsys md mu acc de = acc\<lparr>nouidcounter := ?c\<rparr>"
        using nsk by (simp add: scan_step_unfold)
      have upos: "0 < ?u" using True by (auto simp: below_floor_def split: option.splits)
      show ?thesis
        unfolding st scan_inv_def
      proof (intro conjI allI impI ballI)
        show "nouidcounter (acc\<lparr>nouidcounter := ?c\<rparr>) < 0" using c_neg by simp
      next
        fix uid e assume a: "map_of (retval (acc\<lparr>nouidcounter := ?c\<rparr>)) uid = Some e"
        then have a': "map_of (retval acc) uid = Some e" by simp
        from rv [OF a'] c_le show "nouidcounter (acc\<lparr>nouidcounter := ?c\<rparr>) < uid" by simp
        from rv [OF a'] show "\<not> below_floor mu uid" by blast
        from rv [OF a'] show "\<exists>d \<in> set (ps @ [de]). e = scan_entry f d \<and> \<not> skipped f fsys d
                             \<and> \<not> too_old md (snd d)" by auto
      next
        fix uid e assume a: "map_of (date_excludees (acc\<lparr>nouidcounter := ?c\<rparr>)) uid = Some e"
        then have a': "map_of (date_excludees acc) uid = Some e" by simp
        from ex [OF a'] c_le show "nouidcounter (acc\<lparr>nouidcounter := ?c\<rparr>) < uid" by simp
        from ex [OF a'] show "\<not> below_floor mu uid" by blast
        from ex [OF a'] show "\<exists>d \<in> set (ps @ [de]). e = scan_entry f d \<and> \<not> skipped f fsys d
                             \<and> too_old md (snd d)" by auto
      next
        fix d assume d: "d \<in> set (ps @ [de])"
          and h: "\<not> skipped f fsys d \<and> re_uidmatch_search (snd d) = None \<and> \<not> too_old md (snd d)"
        have "d \<noteq> de"
        proof
          assume "d = de"
          then have "?u = ?ctr" using h scan_uid_no_marker [of "snd de" f ?ctr] by simp
          with upos ctr show False by simp
        qed
        with d have "d \<in> set ps" by auto
        with h neg
        show "\<exists>uid. uid < 0 \<and> map_of (retval (acc\<lparr>nouidcounter := ?c\<rparr>)) uid = Some (scan_entry f d)"
          by simp
      qed
    next
      case nbf: False
      show ?thesis
      proof (cases "too_old md (snd de)")
        case True
        then have st: "scan_step f fsys md mu acc de =
            acc\<lparr>date_excludees := AList.update ?u ?e (date_excludees acc), nouidcounter := ?c\<rparr>"
          using nsk nbf by (simp add: scan_step_unfold)
        show ?thesis
          unfolding st scan_inv_def
        proof (intro conjI allI impI ballI)
          show "nouidcounter (acc\<lparr>date_excludees := AList.update ?u ?e (date_excludees acc),
                  nouidcounter := ?c\<rparr>) < 0" using c_neg by simp
        next
          fix uid e
          assume a: "map_of (retval (acc\<lparr>date_excludees := AList.update ?u ?e (date_excludees acc),
                  nouidcounter := ?c\<rparr>)) uid = Some e"
          then have a': "map_of (retval acc) uid = Some e" by simp
          from rv [OF a'] c_le
          show "nouidcounter (acc\<lparr>date_excludees := AList.update ?u ?e (date_excludees acc),
                  nouidcounter := ?c\<rparr>) < uid" by simp
          from rv [OF a'] show "\<not> below_floor mu uid" by blast
          from rv [OF a'] show "\<exists>d \<in> set (ps @ [de]). e = scan_entry f d \<and> \<not> skipped f fsys d
                             \<and> \<not> too_old md (snd d)" by auto
        next
          fix uid e
          assume a: "map_of (date_excludees (acc\<lparr>date_excludees := AList.update ?u ?e (date_excludees acc),
                  nouidcounter := ?c\<rparr>)) uid = Some e"
          then have a': "(uid = ?u \<and> e = ?e) \<or> (uid \<noteq> ?u \<and> map_of (date_excludees acc) uid = Some e)"
            by (auto simp: update_conv' split: if_splits)
          then show "nouidcounter (acc\<lparr>date_excludees := AList.update ?u ?e (date_excludees acc),
                  nouidcounter := ?c\<rparr>) < uid"
            using u_gt c_le ex [of uid e] by auto
          from a' show "\<not> below_floor mu uid" using nbf ex [of uid e] by auto
          from a' show "\<exists>d \<in> set (ps @ [de]). e = scan_entry f d \<and> \<not> skipped f fsys d
                             \<and> too_old md (snd d)"
            using nsk True ex [of uid e] by auto
        next
          fix d assume d: "d \<in> set (ps @ [de])"
            and h: "\<not> skipped f fsys d \<and> re_uidmatch_search (snd d) = None \<and> \<not> too_old md (snd d)"
          from d h True have "d \<in> set ps" by auto
          with h neg
          show "\<exists>uid. uid < 0 \<and> map_of (retval (acc\<lparr>date_excludees := AList.update ?u ?e (date_excludees acc),
                  nouidcounter := ?c\<rparr>)) uid = Some (scan_entry f d)"
            by simp
        qed
      next
        case nto: False
        then have st: "scan_step f fsys md mu acc de =
            acc\<lparr>retval := AList.update ?u ?e (retval acc), nouidcounter := ?c\<rparr>"
          using nsk nbf by (simp add: scan_step_unfold)
        show ?thesis
          unfolding st scan_inv_def
        proof (intro conjI allI impI ballI)
          show "nouidcounter (acc\<lparr>retval := AList.update ?u ?e (retval acc),
                  nouidcounter := ?c\<rparr>) < 0" using c_neg by simp
        next
          fix uid e
          assume a: "map_of (retval (acc\<lparr>retval := AList.update ?u ?e (retval acc),
                  nouidcounter := ?c\<rparr>)) uid = Some e"
          then have a': "(uid = ?u \<and> e = ?e) \<or> (uid \<noteq> ?u \<and> map_of (retval acc) uid = Some e)"
            by (auto simp: update_conv' split: if_splits)
          then show "nouidcounter (acc\<lparr>retval := AList.update ?u ?e (retval acc),
                  nouidcounter := ?c\<rparr>) < uid"
            using u_gt c_le rv [of uid e] by auto
          from a' show "\<not> below_floor mu uid" using nbf rv [of uid e] by auto
          from a' show "\<exists>d \<in> set (ps @ [de]). e = scan_entry f d \<and> \<not> skipped f fsys d
                             \<and> \<not> too_old md (snd d)"
            using nsk nto rv [of uid e] by auto
        next
          fix uid e
          assume a: "map_of (date_excludees (acc\<lparr>retval := AList.update ?u ?e (retval acc),
                  nouidcounter := ?c\<rparr>)) uid = Some e"
          then have a': "map_of (date_excludees acc) uid = Some e" by simp
          from ex [OF a'] c_le
          show "nouidcounter (acc\<lparr>retval := AList.update ?u ?e (retval acc),
                  nouidcounter := ?c\<rparr>) < uid" by simp
          from ex [OF a'] show "\<not> below_floor mu uid" by blast
          from ex [OF a'] show "\<exists>d \<in> set (ps @ [de]). e = scan_entry f d \<and> \<not> skipped f fsys d
                             \<and> too_old md (snd d)" by auto
        next
          fix d assume d: "d \<in> set (ps @ [de])"
            and h: "\<not> skipped f fsys d \<and> re_uidmatch_search (snd d) = None \<and> \<not> too_old md (snd d)"
          show "\<exists>uid. uid < 0 \<and> map_of (retval (acc\<lparr>retval := AList.update ?u ?e (retval acc),
                  nouidcounter := ?c\<rparr>)) uid = Some (scan_entry f d)"
          proof (cases "d = de")
            case True
            then have "?u = ?ctr" using h scan_uid_no_marker [of "snd de" f ?ctr] by simp
            then have "?u < 0" using ctr by simp
            moreover have "map_of (AList.update ?u ?e (retval acc)) ?u = Some (scan_entry f d)"
              using True by (simp add: update_conv')
            ultimately show ?thesis by auto
          next
            case False
            with d have "d \<in> set ps" by auto
            with h neg obtain uid where uid: "uid < 0" "map_of (retval acc) uid = Some (scan_entry f d)"
              by blast
            from rv [OF uid(2)] have "?ctr < uid" by blast
            with uid(1) have "uid \<noteq> ?u" by (rule u_fresh)
            then have "map_of (AList.update ?u ?e (retval acc)) uid = Some (scan_entry f d)"
              using uid(2) by (simp add: update_conv')
            with uid(1) show ?thesis by auto
          qed
        qed
      qed
    qed
  qed
qed

lemma scan_inv_foldl:
  "scan_inv f fsys md mu ps acc \<Longrightarrow>
   scan_inv f fsys md mu (ps @ qs) (foldl (scan_step f fsys md mu) acc qs)"
proof (induction qs arbitrary: ps acc)
  case Nil
  then show ?case by simp
next
  case (Cons q qs)
  from scan_inv_step [OF Cons.prems, of q]
  have "scan_inv f fsys md mu (ps @ [q]) (scan_step f fsys md mu acc q)" .
  from Cons.IH [OF this] show ?case by simp
qed

lemma scan_inv_loop: "scan_inv f fsys md mu fls (scan_loop f fsys md mu fls)"
  using scan_inv_foldl [OF scan_inv_init, of f fsys md mu fls] by (simp add: scan_loop_def)


lemma map_of_reinclude_fold:
  "map_of (foldl (\<lambda>r uid. if uid > m
                     then (case map_of excl uid of None \<Rightarrow> r | Some e \<Rightarrow> AList.update uid e r)
                     else r) rv ks) uid
     = (if uid \<in> set ks \<and> uid > m \<and> map_of excl uid \<noteq> None
        then map_of excl uid else map_of rv uid)"
proof (induction ks arbitrary: rv)
  case Nil
  then show ?case by simp
next
  case (Cons k ks)
  show ?case
    by (simp add: Cons.IH update_conv' split: option.splits) auto
qed

lemma map_of_reinclude:
  "map_of (reinclude rv excl) uid =
     (if {u \<in> dom (map_of rv). 0 < u} \<noteq> {} \<and> Min {u \<in> dom (map_of rv). 0 < u} < uid
         \<and> map_of excl uid \<noteq> None
      then map_of excl uid else map_of rv uid)"
proof -
  let ?pos = "filter (\<lambda>uid. uid > 0) (map fst rv)"
  have set_pos: "set ?pos = {u \<in> dom (map_of rv). 0 < u}"
    by (auto simp: dom_map_of_conv_image_fst)
  have keys: "uid \<in> set (map fst excl) \<longleftrightarrow> map_of excl uid \<noteq> None"
    by (simp add: map_of_eq_None_iff)
  show ?thesis
  proof (cases "?pos = []")
    case True
    then have "{u \<in> dom (map_of rv). 0 < u} = {}" using set_pos by simp
    then show ?thesis using True by (simp add: reinclude_def)
  next
    case False
    then have "set ?pos \<noteq> {}" by (metis set_empty)
    then have ne: "{u \<in> dom (map_of rv). 0 < u} \<noteq> {}" by (metis set_pos)
    have m: "min_list ?pos = Min {u \<in> dom (map_of rv). 0 < u}"
      using min_list_Min [OF False] set_pos by simp
    show ?thesis
      using False ne keys
      by (auto simp add: reinclude_def Let_def map_of_reinclude_fold m simp del: set_map)
  qed
qed

lemma dir_join_name:
  "d = ''new'' \<or> d = ''cur'' \<Longrightarrow> nm \<noteq> [] \<Longrightarrow> CHR ''/'' \<notin> set nm \<Longrightarrow>
   os_path_join d nm = d @ ''/'' @ nm"
  by (cases nm) (auto simp: os_path_join_def)

lemma listdir_name:
  "nm \<in> set (os_listdir fsys d) \<Longrightarrow>
   nm \<noteq> [] \<and> CHR ''/'' \<notin> set nm \<and> map_of (files fsys) (dir_prefix_of d @ nm) \<noteq> None"
proof -
  assume "nm \<in> set (os_listdir fsys d)"
  then obtain p where p: "p \<in> fst ` set (files fsys)" "prefix (dir_prefix_of d) p"
    "nm = drop (length (dir_prefix_of d)) p" "nm \<noteq> []" "CHR ''/'' \<notin> set nm"
    by (auto simp: os_listdir_def)
  from p(2) obtain r where r: "p = dir_prefix_of d @ r" by (auto simp: prefix_def)
  have "nm = r" unfolding p(3) r by simp
  then have "dir_prefix_of d @ nm = p" using r by (simp only:)
  then have "dir_prefix_of d @ nm \<in> fst ` set (files fsys)" using p(1) by (simp only:)
  then have "map_of (files fsys) (dir_prefix_of d @ nm) \<noteq> None"
    by (simp only: map_of_eq_None_iff not_not)
  with p(4,5) show ?thesis by blast
qed

lemma root_join_dir:
  "d = ''new'' \<or> d = ''cur'' \<Longrightarrow> nm \<noteq> [] \<Longrightarrow> CHR ''/'' \<notin> set nm \<Longrightarrow>
   os_path_join root (os_path_join d nm) = dir_prefix_of (os_path_join root d) @ nm"
  by (cases nm) (auto simp: os_path_join_def dir_prefix_of_def)

lemma scan_files_entry:
  assumes "de \<in> set (scan_files f fsys)"
  shows "(fst de = ''new'' \<or> fst de = ''cur'') \<and> snd de \<noteq> [] \<and> CHR ''/'' \<notin> set (snd de) \<and>
         map_of (files fsys) (os_path_join (fullname f) (os_path_join (fst de) (snd de))) \<noteq> None"
proof -
  from assms obtain d nm where de: "de = (d, nm)" and d: "d = ''new'' \<or> d = ''cur''"
    and nm: "nm \<in> set (os_listdir fsys (os_path_join (fullname f) d))"
    by (auto simp: scan_files_def)
  from listdir_name [OF nm] have n: "nm \<noteq> []" "CHR ''/'' \<notin> set nm"
    and ex: "map_of (files fsys) (dir_prefix_of (os_path_join (fullname f) d) @ nm) \<noteq> None"
    by blast+
  from root_join_dir [OF d n, of "fullname f"] ex de d n show ?thesis by simp
qed

section \<open>Deleting, scanning with a date limit, and names without a timestamp\<close>



lemma no_digits_timestamp: "\<forall>c \<in> set s. \<not> is_digit c \<Longrightarrow> re_timestampmatch_search s = None"
proof -
  assume a: "\<forall>c \<in> set s. \<not> is_digit c"
  then have "dropWhile (\<lambda>c. \<not> is_digit c) s = []" by simp
  then show ?thesis by (simp add: re_timestampmatch_search_def)
qed

lemma first_digits_timestamp:
  assumes "\<forall>c \<in> set pre. \<not> is_digit c" "ds \<noteq> []" "\<forall>c \<in> set ds. is_digit c"
    "post = [] \<or> \<not> is_digit (hd post)"
  shows "re_timestampmatch_search (pre @ ds @ post) = Some ds"
proof -
  have hd: "is_digit (hd ds)" using assms(2,3) by simp
  have "dropWhile (\<lambda>c. \<not> is_digit c) (pre @ ds @ post) = ds @ post"
    using assms(1,2) hd by (cases ds) (simp_all add: dropWhile_append3)
  moreover have "takeWhile is_digit (ds @ post) = ds"
    using assms(3,4) by (cases post) (simp_all add: takeWhile_tail)
  ultimately show ?thesis using assms(2) by (simp add: re_timestampmatch_search_def)
qed

lemma no_digits_no_uid: "\<forall>c \<in> set s. \<not> is_digit c \<Longrightarrow> re_uidmatch_search s = None"
proof (rule ccontr)
  assume a: "\<forall>c \<in> set s. \<not> is_digit c" and "re_uidmatch_search s \<noteq> None"
  then obtain g where "re_uidmatch_search s = Some g" by auto
  from re_uidmatch_search_Some [OF this]
  obtain x y where "s = x @ '',U='' @ g @ y" "g \<noteq> []" "\<forall>c \<in> set g. is_digit c" by blast
  then have "hd g \<in> set s" "is_digit (hd g)" by auto
  with a show False by blast
qed


lemma pos_Min_positive:
  assumes "{u \<in> dom (map_of rv). (0::int) < u} \<noteq> {}"
  shows "0 < Min {u \<in> dom (map_of rv). 0 < u}"
proof -
  have "finite {u \<in> dom (map_of rv). (0::int) < u}" by (simp add: finite_dom_map_of)
  from Min_in [OF this assms] show ?thesis by simp
qed

lemma map_of_reinclude_nonpos:
  "uid \<le> 0 \<Longrightarrow> map_of (reinclude rv excl) uid = map_of rv uid"
proof (cases "{u \<in> dom (map_of rv). (0::int) < u} = {}")
  case True
  then show ?thesis by (simp only: map_of_reinclude) simp
next
  case False
  assume "uid \<le> 0"
  with pos_Min_positive [OF False] have "\<not> Min {u \<in> dom (map_of rv). 0 < u} < uid" by simp
  then show ?thesis by (simp only: map_of_reinclude) simp
qed

lemma scanfolder_nonpos:
  "uid \<le> 0 \<Longrightarrow>
   map_of (scanfolder f fsys md mu) uid
     = map_of (retval (scan_loop f fsys md mu (scan_files f fsys))) uid"
  by (simp add: scanfolder_def Let_def map_of_reinclude_nonpos)

lemma scan_path_inj:
  assumes "d = ''new'' \<or> d = ''cur''" "d' = ''new'' \<or> d' = ''cur''"
    "nm \<noteq> []" "CHR ''/'' \<notin> set nm" "nm' \<noteq> []" "CHR ''/'' \<notin> set nm'"
    "os_path_join d nm = os_path_join d' nm'"
  shows "nm = nm'"
proof -
  have "d @ ''/'' @ nm = d' @ ''/'' @ nm'"
    using assms dir_join_name [of d nm] dir_join_name [of d' nm'] by simp
  then show ?thesis using assms(1,2) by auto
qed




lemma scan_inv_excludeesD:
  assumes "scan_inv f fsys md mu ps acc" "map_of (date_excludees acc) uid = Some e"
  shows "\<not> below_floor mu uid"
    and "\<exists>de \<in> set ps. e = scan_entry f de \<and> \<not> skipped f fsys de \<and> too_old md (snd de)"
proof -
  from assms(1) have "\<forall>uid e. map_of (date_excludees acc) uid = Some e \<longrightarrow>
         nouidcounter acc < uid \<and> \<not> below_floor mu uid \<and>
         (\<exists>de \<in> set ps. e = scan_entry f de \<and> \<not> skipped f fsys de
                          \<and> too_old md (snd de))"
    unfolding scan_inv_def by (elim conjE)
  then have "map_of (date_excludees acc) uid = Some e \<longrightarrow>
         nouidcounter acc < uid \<and> \<not> below_floor mu uid \<and>
         (\<exists>de \<in> set ps. e = scan_entry f de \<and> \<not> skipped f fsys de
                          \<and> too_old md (snd de))"
    by (elim allE)
  with assms(2) show "\<not> below_floor mu uid"
    and "\<exists>de \<in> set ps. e = scan_entry f de \<and> \<not> skipped f fsys de \<and> too_old md (snd de)"
    by simp_all
qed

lemma scan_inv_negD:
  assumes "scan_inv f fsys md mu ps acc" "de \<in> set ps" "\<not> skipped f fsys de"
    "re_uidmatch_search (snd de) = None" "\<not> too_old md (snd de)"
  shows "\<exists>uid. uid < 0 \<and> map_of (retval acc) uid = Some (scan_entry f de)"
proof -
  from assms(1) have "\<forall>de \<in> set ps. \<not> skipped f fsys de \<and> re_uidmatch_search (snd de) = None
                        \<and> \<not> too_old md (snd de) \<longrightarrow>
         (\<exists>uid. uid < 0 \<and> map_of (retval acc) uid = Some (scan_entry f de))"
    unfolding scan_inv_def by (elim conjE)
  from bspec [OF this assms(2)] assms(3,4,5) show ?thesis by simp
qed

text \<open>
  Claim C10. The timestamp \<^verbatim>\<open>_iswithintime\<close> compares with \<open>min_date\<close> is the first
  run of digits anywhere in the file name, and a name without any digit is within
  the time window for every date. In the scan, for every \<open>min_date\<close> and
  \<open>min_uid\<close>, a listed file whose name has no digit and which reaches the date filter
  (it is not a dot file and not above the size limit) is in the primary result and
  in the final result under a negative UID, and no entry of the side set of
  date-excluded messages records its path.
\<close>

theorem digit_free_name_within_time:
  "((\<forall>c \<in> set pre. \<not> is_digit c) \<and> ds \<noteq> [] \<and> (\<forall>c \<in> set ds. is_digit c)
      \<and> (post = [] \<or> \<not> is_digit (hd post))
     \<longrightarrow> iswithintime (pre @ ds @ post) d = (\<not> int_of_digits ds < d)) \<and>
   ((\<forall>c \<in> set fname. \<not> is_digit c) \<longrightarrow> iswithintime fname d) \<and>
   (de \<in> set (scan_files f fsys) \<and> (\<forall>c \<in> set (snd de). \<not> is_digit c)
      \<and> hd (snd de) \<noteq> CHR ''.''
      \<and> \<not> exceeds_maxsize f fsys (os_path_join (fst de) (snd de))
     \<longrightarrow> (\<exists>uid < 0.
            map_of (retval (scan_loop f fsys min_date min_uid (scan_files f fsys))) uid
              = Some \<lparr>flags = snd (snd (snd (parse_filename f (snd de)))),
                      filename = os_path_join (fst de) (snd de)\<rparr> \<and>
            map_of (scanfolder f fsys min_date min_uid) uid
              = Some \<lparr>flags = snd (snd (snd (parse_filename f (snd de)))),
                      filename = os_path_join (fst de) (snd de)\<rparr>) \<and>
         (\<forall>uid e. map_of (date_excludees (scan_loop f fsys min_date min_uid (scan_files f fsys))) uid
                     = Some e
                   \<longrightarrow> filename e \<noteq> os_path_join (fst de) (snd de)))"
proof (intro conjI impI)
  assume "(\<forall>c \<in> set pre. \<not> is_digit c) \<and> ds \<noteq> [] \<and> (\<forall>c \<in> set ds. is_digit c)
      \<and> (post = [] \<or> \<not> is_digit (hd post))"
  then have "re_timestampmatch_search (pre @ ds @ post) = Some ds"
    by (intro first_digits_timestamp) blast+
  then show "iswithintime (pre @ ds @ post) d = (\<not> int_of_digits ds < d)"
    by (simp add: iswithintime_def)
next
  assume "\<forall>c \<in> set fname. \<not> is_digit c"
  then show "iswithintime fname d" by (simp add: iswithintime_def no_digits_timestamp)
next
  let ?fls = "scan_files f fsys"
  let ?acc = "scan_loop f fsys min_date min_uid ?fls"
  assume a: "de \<in> set ?fls \<and> (\<forall>c \<in> set (snd de). \<not> is_digit c)
      \<and> hd (snd de) \<noteq> CHR ''.''
      \<and> \<not> exceeds_maxsize f fsys (os_path_join (fst de) (snd de))"
  then have de: "de \<in> set ?fls" and nd: "\<forall>c \<in> set (snd de). \<not> is_digit c"
    and nsk: "\<not> skipped f fsys de"
    by (auto simp: skipped_def)
  have nto: "\<not> too_old min_date (snd de)"
    using nd by (simp add: too_old_def iswithintime_def no_digits_timestamp split: option.splits)
  have nu: "re_uidmatch_search (snd de) = None" using nd by (rule no_digits_no_uid)
  have inv: "scan_inv f fsys min_date min_uid ?fls ?acc" by (rule scan_inv_loop)
  from scan_inv_negD [OF inv de nsk nu nto] obtain uid where uid: "uid < 0"
    "map_of (retval ?acc) uid = Some (scan_entry f de)"
    by (elim exE conjE)
  have "map_of (scanfolder f fsys min_date min_uid) uid = Some (scan_entry f de)"
    using uid scanfolder_nonpos [of uid f fsys min_date min_uid] by simp
  then have sf: "map_of (scanfolder f fsys min_date min_uid) uid
              = Some \<lparr>flags = snd (snd (snd (parse_filename f (snd de)))),
                      filename = os_path_join (fst de) (snd de)\<rparr>"
    by (simp only: scan_entry_def)
  have rv: "map_of (retval ?acc) uid
              = Some \<lparr>flags = snd (snd (snd (parse_filename f (snd de)))),
                      filename = os_path_join (fst de) (snd de)\<rparr>"
    using uid(2) by (simp only: scan_entry_def)
  show "\<exists>uid < 0.
            map_of (retval ?acc) uid
              = Some \<lparr>flags = snd (snd (snd (parse_filename f (snd de)))),
                      filename = os_path_join (fst de) (snd de)\<rparr> \<and>
            map_of (scanfolder f fsys min_date min_uid) uid
              = Some \<lparr>flags = snd (snd (snd (parse_filename f (snd de)))),
                      filename = os_path_join (fst de) (snd de)\<rparr>"
    using uid(1) rv sf by (intro exI [of _ uid] conjI)
  show "\<forall>uid e. map_of (date_excludees ?acc) uid = Some e
                   \<longrightarrow> filename e \<noteq> os_path_join (fst de) (snd de)"
  proof (intro allI impI notI)
    fix u e assume e: "map_of (date_excludees ?acc) u = Some e"
      and eq: "filename e = os_path_join (fst de) (snd de)"
    from scan_inv_excludeesD(2) [OF inv e]
    obtain de' where de': "de' \<in> set ?fls" "e = scan_entry f de'"
      "too_old min_date (snd de')"
      by (elim bexE conjE)
    have "filename (scan_entry f de') = os_path_join (fst de') (snd de')"
      by (simp add: scan_entry_def)
    then have "filename e = os_path_join (fst de') (snd de')" by (simp only: de'(2))
    from trans [OF this [symmetric] eq]
    have j: "os_path_join (fst de') (snd de') = os_path_join (fst de) (snd de)" .
    from scan_files_entry [OF de]
    have d1: "fst de = ''new'' \<or> fst de = ''cur''" and d2: "snd de \<noteq> []"
      and d3: "CHR ''/'' \<notin> set (snd de)" by simp_all
    from scan_files_entry [OF de'(1)]
    have e1: "fst de' = ''new'' \<or> fst de' = ''cur''" and e2: "snd de' \<noteq> []"
      and e3: "CHR ''/'' \<notin> set (snd de')" by simp_all
    have "snd de' = snd de" by (rule scan_path_inj [OF e1 d1 e2 e3 d2 d3 j])
    with de'(3) nto show False by simp
  qed
qed






lemma scan_files_plain: "scan_files inbox plain_fs = [(''new'', ''hello'')]"
  by (simp add: plain_fs_def scan_files_def os_listdir_def dir_prefix_of_def os_path_join_def
        inbox_def)


theorem digit_free_name_within_time_witness:
  "iswithintime (''msg_'' @ ''1000'' @ ''.h'') 1500 = (\<not> int_of_digits ''1000'' < 1500) \<and>
   \<not> iswithintime ''msg_1000.h'' 1500 \<and>
   iswithintime ''hello'' 1500 \<and>
   (''new'', ''hello'') \<in> set (scan_files inbox plain_fs) \<and>
   (\<exists>uid < 0.
      map_of (retval (scan_loop inbox plain_fs (Some 1500) None (scan_files inbox plain_fs))) uid
        = Some \<lparr>flags = {}, filename = ''new/hello''\<rparr> \<and>
      map_of (scanfolder inbox plain_fs (Some 1500) None) uid
        = Some \<lparr>flags = {}, filename = ''new/hello''\<rparr>) \<and>
   date_excludees (scan_loop inbox plain_fs (Some 1500) None (scan_files inbox plain_fs)) = []"
proof -
  note inst = digit_free_name_within_time [of "''msg_''" "''1000''" "''.h''" 1500 "''hello''"
      "(''new'', ''hello'')" inbox plain_fs "Some 1500" None]
  have p1: "(\<forall>c \<in> set ''msg_''. \<not> is_digit c) \<and> ''1000'' \<noteq> [] \<and> (\<forall>c \<in> set ''1000''. is_digit c)
      \<and> (''.h'' = [] \<or> \<not> is_digit (hd ''.h''))"
    by (simp add: is_digit_def)
  have p2: "\<forall>c \<in> set ''hello''. \<not> is_digit c" by (simp add: is_digit_def)
  have p3: "(''new'', ''hello'') \<in> set (scan_files inbox plain_fs) \<and>
      (\<forall>c \<in> set (snd (''new'', ''hello'')). \<not> is_digit c)
      \<and> hd (snd (''new'', ''hello'')) \<noteq> CHR ''.''
      \<and> \<not> exceeds_maxsize inbox plain_fs (os_path_join (fst (''new'', ''hello'')) (snd (''new'', ''hello'')))"
  proof (intro conjI)
    show "(''new'', ''hello'') \<in> set (scan_files inbox plain_fs)" by (simp add: scan_files_plain)
    show "\<forall>c \<in> set (snd (''new'', ''hello'')). \<not> is_digit c" by (simp add: is_digit_def)
    show "hd (snd (''new'', ''hello'')) \<noteq> CHR ''.''" by simp
    show "\<not> exceeds_maxsize inbox plain_fs
             (os_path_join (fst (''new'', ''hello'')) (snd (''new'', ''hello'')))"
      by (simp add: exceeds_maxsize_def inbox_def)
  qed
  have fl: "snd (snd (snd (parse_filename inbox ''hello''))) = {}"
    by (simp add: parse_filename_def infosep_def inbox_def)
  have pj: "os_path_join ''new'' ''hello'' = ''new/hello''" by (simp add: os_path_join_def)
  from inst p1 have c1: "iswithintime (''msg_'' @ ''1000'' @ ''.h'') 1500 = (\<not> int_of_digits ''1000'' < 1500)"
    by blast
  have v: "int_of_digits ''1000'' = 1000" by (simp add: int_of_digits_def digit_val_def)
  from c1 v have c1': "\<not> iswithintime ''msg_1000.h'' 1500" by simp
  from inst p2 have c2: "iswithintime ''hello'' 1500" by blast
  from inst p3 have c3: "(\<exists>uid < 0.
            map_of (retval (scan_loop inbox plain_fs (Some 1500) None (scan_files inbox plain_fs))) uid
              = Some \<lparr>flags = snd (snd (snd (parse_filename inbox (snd (''new'', ''hello''))))),
                      filename = os_path_join (fst (''new'', ''hello'')) (snd (''new'', ''hello''))\<rparr> \<and>
            map_of (scanfolder inbox plain_fs (Some 1500) None) uid
              = Some \<lparr>flags = snd (snd (snd (parse_filename inbox (snd (''new'', ''hello''))))),
                      filename = os_path_join (fst (''new'', ''hello'')) (snd (''new'', ''hello''))\<rparr>) \<and>
         (\<forall>uid e. map_of (date_excludees (scan_loop inbox plain_fs (Some 1500) None (scan_files inbox plain_fs))) uid
                     = Some e
                   \<longrightarrow> filename e \<noteq> os_path_join (fst (''new'', ''hello'')) (snd (''new'', ''hello'')))"
    by blast
  from c3 have c3': "(\<exists>uid < 0.
      map_of (retval (scan_loop inbox plain_fs (Some 1500) None (scan_files inbox plain_fs))) uid
        = Some \<lparr>flags = {}, filename = ''new/hello''\<rparr> \<and>
      map_of (scanfolder inbox plain_fs (Some 1500) None) uid
        = Some \<lparr>flags = {}, filename = ''new/hello''\<rparr>) \<and>
   (\<forall>uid e. map_of (date_excludees (scan_loop inbox plain_fs (Some 1500) None
                        (scan_files inbox plain_fs))) uid = Some e
              \<longrightarrow> filename e \<noteq> ''new/hello'')"
    unfolding fst_conv snd_conv fl pj by blast
  have m: "(''new'', ''hello'') \<in> set (scan_files inbox plain_fs)" by (simp add: scan_files_plain)
  from c3' have c3a: "\<exists>uid < 0.
      map_of (retval (scan_loop inbox plain_fs (Some 1500) None (scan_files inbox plain_fs))) uid
        = Some \<lparr>flags = {}, filename = ''new/hello''\<rparr> \<and>
      map_of (scanfolder inbox plain_fs (Some 1500) None) uid
        = Some \<lparr>flags = {}, filename = ''new/hello''\<rparr>"
    by (rule conjunct1)
  from c3' have c3b: "\<forall>uid e. map_of (date_excludees (scan_loop inbox plain_fs (Some 1500) None
                        (scan_files inbox plain_fs))) uid = Some e
              \<longrightarrow> filename e \<noteq> ''new/hello''"
    by (rule conjunct2)
  show ?thesis
  proof (intro conjI)
    show "iswithintime (''msg_'' @ ''1000'' @ ''.h'') 1500 = (\<not> int_of_digits ''1000'' < 1500)"
      by (rule c1)
    show "\<not> iswithintime ''msg_1000.h'' 1500" by (rule c1')
    show "iswithintime ''hello'' 1500" by (rule c2)
    show "(''new'', ''hello'') \<in> set (scan_files inbox plain_fs)" by (rule m)
    show "\<exists>uid < 0.
      map_of (retval (scan_loop inbox plain_fs (Some 1500) None (scan_files inbox plain_fs))) uid
        = Some \<lparr>flags = {}, filename = ''new/hello''\<rparr> \<and>
      map_of (scanfolder inbox plain_fs (Some 1500) None) uid
        = Some \<lparr>flags = {}, filename = ''new/hello''\<rparr>"
      by (rule c3a)
    show "date_excludees (scan_loop inbox plain_fs (Some 1500) None (scan_files inbox plain_fs)) = []"
      unfolding scan_files_plain
      by (simp add: scan_loop_def scan_step_def os_path_join_def
            exceeds_maxsize_def scan_uid_def parse_filename_def infosep_def inbox_def
            iswithintime_def re_timestampmatch_search_def is_digit_def is_word_def
            msglist_item_initializer_def Let_def)
  qed
qed


end
